theory Spec2Isabelle
  imports Main
begin

section \<open>The CSS selector builder of \<open>05-objects-tasks.js\<close>\<close>

subsection \<open>Data\<close>

text \<open>
  \<open>MyCssSelector.ITEM_TYPES\<close> is an object of eight named integer constants. The
  names are the constructors of \<open>item_type\<close>; \<open>ITEM_TYPES\<close> gives the integer of each,
  which is what \<open>validate\<close> compares with \<open><\<close>.
\<close>

datatype item_type =
  ELEMENT | ID | CLASS | ATTR | PSEUDO_CLASS | PSEUDO_ELEMENT | COMBINATOR | SELECTOR

fun ITEM_TYPES :: "item_type \<Rightarrow> nat" where
  "ITEM_TYPES ELEMENT = 0"
| "ITEM_TYPES ID = 1"
| "ITEM_TYPES CLASS = 2"
| "ITEM_TYPES ATTR = 3"
| "ITEM_TYPES PSEUDO_CLASS = 4"
| "ITEM_TYPES PSEUDO_ELEMENT = 5"
| "ITEM_TYPES COMBINATOR = 6"
| "ITEM_TYPES SELECTOR = 7"

text \<open>
  The values handed to \<open>add\<close>: a string (a name, an attribute expression, a combinator
  token) or a reference to a \<open>MyCssSelector\<close> instance (the right operand of
  \<open>combine\<close>). \<open>toString\<close> is what a template literal and \<open>Array.prototype.join\<close> make
  of a value: a string is itself, an object without a \<open>toString\<close> of its own is the
  text \<open>[object Object]\<close>.
\<close>

datatype css_value = Str string | Ref nat

fun toString :: "css_value \<Rightarrow> string" where
  "toString (Str s) = s"
| "toString (Ref r) = ''[object Object]''"

text \<open>An element of \<open>this.items\<close>: the object literal \<open>{ value: newValue, type }\<close>.\<close>

record css_item =
  ivalue :: css_value
  itype :: item_type

text \<open>
  What the code throws: the two \<open>Error\<close>s of \<open>validate\<close>, named as the specification
  names them; the \<open>TypeError\<close> of spreading \<open>undefined\<close>, of \<open>JSON.stringify\<close> on a
  cyclic structure, of \<open>new\<close> on what is not a constructor and of \<open>Object.assign\<close> on a
  property that cannot be set; the \<open>SyntaxError\<close> of \<open>JSON.parse\<close>; and any other value,
  thrown by a constructor or a setter that the caller of \<open>fromJSON\<close> wrote.
\<close>

datatype error =
  DuplicateSelectorPartError
    \<comment> \<open>\<open>Element, id and pseudo-element should not occur more then one time inside the selector\<close>\<close>
| SelectorOrderError
    \<comment> \<open>\<open>Selector parts should be arranged in the following order: ...\<close>\<close>
| TypeError
| SyntaxError
| OtherError

text \<open>
  The store. Every \<open>MyCssSelector\<close> is made by \<open>new MyCssSelector()\<close> with no argument,
  so each instance owns a fresh \<open>items\<close> array and \<open>this.items\<close> is never reassigned:
  an instance and its array are one address. \<open>items h r\<close> is the content of the array
  of instance \<open>r\<close>, \<open>fresh h\<close> is the next address to allocate.
\<close>

record store =
  items :: "nat \<Rightarrow> css_item list"
  fresh :: nat

subsection \<open>\<open>MyCssSelector\<close>\<close>

definition disposableTypes :: "item_type list" where
  "disposableTypes = [ELEMENT, ID, PSEUDO_ELEMENT]"

definition new_MyCssSelector :: "store \<Rightarrow> store \<times> nat" where
  "new_MyCssSelector h =
     (h\<lparr>items := (items h)(fresh h := []), fresh := Suc (fresh h)\<rparr>, fresh h)"

text \<open>
  \<open>validate(type)\<close>, on the content of \<open>this.items\<close>. \<open>typesCounter\<close> is the object the
  \<open>reduce\<close> builds, with one key for each disposable type; \<open>lastItem\<close> is \<open>undefined\<close>
  on an empty array. The result is the error thrown, if any.
\<close>

definition typesCounter :: "css_item list \<Rightarrow> item_type \<rightharpoonup> nat" where
  "typesCounter its =
     fold (\<lambda>t acc. acc(t \<mapsto> length (filter (\<lambda>item. itype item = t) its)))
       disposableTypes Map.empty"

definition lastItem :: "css_item list \<Rightarrow> css_item option" where
  "lastItem its = (if its = [] then None else Some (last its))"

definition validate :: "css_item list \<Rightarrow> item_type \<Rightarrow> error option" where
  "validate its type =
     (if type \<in> set disposableTypes \<and> typesCounter its type = Some 1
      then Some DuplicateSelectorPartError
      else (case lastItem its of
              None \<Rightarrow> None
            | Some li \<Rightarrow>
                if ITEM_TYPES type < ITEM_TYPES (itype li) then Some SelectorOrderError
                else None))"

text \<open>The \<open>switch\<close> of \<open>add\<close>: the value stored for a fragment of each type.\<close>

fun newValue :: "css_value \<Rightarrow> item_type \<Rightarrow> css_value" where
  "newValue v ID = Str (''#'' @ toString v)"
| "newValue v CLASS = Str (''.'' @ toString v)"
| "newValue v ATTR = Str (''['' @ toString v @ '']'')"
| "newValue v PSEUDO_CLASS = Str ('':'' @ toString v)"
| "newValue v PSEUDO_ELEMENT = Str (''::'' @ toString v)"
| "newValue v COMBINATOR = Str ('' '' @ toString v @ '' '')"
| "newValue v ELEMENT = v"
| "newValue v SELECTOR = v"

text \<open>
  A method call runs in a store and leaves a store, with either the error thrown or
  the value returned. The arguments of a method come in the order of the source,
  then the receiver \<open>this\<close>, then the store.
\<close>

type_synonym 'a call = "store \<Rightarrow> store \<times> (error + 'a)"

text \<open>
  \<open>add(value, type)\<close> on the instance \<open>this\<close>. For \<open>SELECTOR\<close> the spread
  \<open>...newValue.items\<close> reads the whole array of the operand before \<open>push\<close> runs; on a
  string \<open>newValue.items\<close> is \<open>undefined\<close> and the spread throws.
\<close>

definition add :: "css_value \<Rightarrow> item_type \<Rightarrow> nat \<Rightarrow> nat call" where
  "add v type this h =
     (case (if type \<noteq> SELECTOR then validate (items h this) type else None) of
        Some e \<Rightarrow> (h, Inl e)
      | None \<Rightarrow>
          if type = SELECTOR then
            (case newValue v type of
               Ref r \<Rightarrow> (h\<lparr>items := (items h)(this := items h this @ items h r)\<rparr>, Inr this)
             | Str s \<Rightarrow> (h, Inl TypeError))
          else
            (h\<lparr>items := (items h)(this := items h this @
                 [\<lparr>ivalue = newValue v type, itype = type\<rparr>])\<rparr>, Inr this))"

definition stringify :: "nat \<Rightarrow> store \<Rightarrow> string" where
  "stringify this h = concat (map (\<lambda>item. toString (ivalue item)) (items h this))"

subsection \<open>\<open>cssSelectorBuilder\<close>\<close>

text \<open>
  The methods of \<open>cssSelectorBuilder\<close> are copied to \<open>ICssBuilder.prototype\<close>, which
  \<open>MyCssSelector\<close> extends, so each runs with \<open>this\<close> either the facade object or an
  instance. \<open>this.add\<close> on the facade is \<open>cssSelectorBuilder.add\<close>, whose \<open>instanceof\<close>
  test fails and which allocates; on an instance it is \<open>MyCssSelector.prototype.add\<close>,
  which shadows the copied one.
\<close>

datatype receiver = Facade | Instance nat

definition this_add :: "css_value \<Rightarrow> item_type \<Rightarrow> receiver \<Rightarrow> nat call" where
  "this_add v type this h =
     (case this of
        Facade \<Rightarrow> (case new_MyCssSelector h of (h', obj) \<Rightarrow> add v type obj h')
      | Instance obj \<Rightarrow> add v type obj h)"

definition element :: "css_value \<Rightarrow> receiver \<Rightarrow> nat call" where
  "element v this = this_add v ELEMENT this"

definition id_css :: "css_value \<Rightarrow> receiver \<Rightarrow> nat call" where
  "id_css v this = this_add v ID this"

definition class_css :: "css_value \<Rightarrow> receiver \<Rightarrow> nat call" where
  "class_css v this = this_add v CLASS this"

definition attr :: "css_value \<Rightarrow> receiver \<Rightarrow> nat call" where
  "attr v this = this_add v ATTR this"

definition pseudoClass :: "css_value \<Rightarrow> receiver \<Rightarrow> nat call" where
  "pseudoClass v this = this_add v PSEUDO_CLASS this"

definition pseudoElement :: "css_value \<Rightarrow> receiver \<Rightarrow> nat call" where
  "pseudoElement v this = this_add v PSEUDO_ELEMENT this"

text \<open>
  \<open>combine(selector1, combinator, selector2)\<close>: two chained calls of \<open>add\<close>, the second
  on what the first returns; an error of the first ends the chain.
\<close>

definition combine :: "receiver \<Rightarrow> css_value \<Rightarrow> css_value \<Rightarrow> nat call" where
  "combine selector1 combinator selector2 h =
     (case this_add combinator COMBINATOR selector1 h of
        (h', Inl e) \<Rightarrow> (h', Inl e)
      | (h', Inr s) \<Rightarrow> add selector2 SELECTOR s h')"

subsection \<open>Callers\<close>

text \<open>
  The expressions a caller writes. \<open>chain e m\<close> is the method call \<open>e.m(...)\<close>: \<open>m\<close> runs
  in the store \<open>e\<close> left, on the instance \<open>e\<close> returned, unless \<open>e\<close> threw.
  \<open>combine_of e1 c e2\<close> is \<open>cssSelectorBuilder.combine(e1, c, e2)\<close>: the arguments are
  evaluated from left to right, then \<open>combine\<close> runs. \<open>stringify_of e\<close> is
  \<open>e.stringify()\<close>, \<open>None\<close> when \<open>e\<close> threw.
\<close>

definition chain :: "nat call \<Rightarrow> (receiver \<Rightarrow> nat call) \<Rightarrow> nat call" where
  "chain e m h = (case e h of (h', Inl err) \<Rightarrow> (h', Inl err) | (h', Inr obj) \<Rightarrow> m (Instance obj) h')"

definition combine_of :: "nat call \<Rightarrow> css_value \<Rightarrow> nat call \<Rightarrow> nat call" where
  "combine_of e1 c e2 h =
     (case e1 h of
        (h1, Inl err) \<Rightarrow> (h1, Inl err)
      | (h1, Inr a) \<Rightarrow>
          (case e2 h1 of
             (h2, Inl err) \<Rightarrow> (h2, Inl err)
           | (h2, Inr b) \<Rightarrow> combine (Instance a) c (Ref b) h2))"

definition stringify_of :: "nat call \<Rightarrow> store \<Rightarrow> string option" where
  "stringify_of e h = (case e h of (h', Inl err) \<Rightarrow> None | (h', Inr obj) \<Rightarrow> Some (stringify obj h'))"

text \<open>An empty store: nothing allocated.\<close>

definition empty_store :: store where
  "empty_store = \<lparr>items = (\<lambda>_. []), fresh = 0\<rparr>"

text \<open>
  A caller's chain of method calls \<open>e.m1(...).m2(...)...\<close>, and the call of the
  append method for a fragment kind \<open>t\<close> with the name \<open>n\<close>: \<open>element\<close>, \<open>id\<close>, \<open>class\<close>,
  \<open>attr\<close>, \<open>pseudoClass\<close> and \<open>pseudoElement\<close> are \<open>this.add\<close> at their own type.
\<close>

fun chain_all :: "nat call \<Rightarrow> (receiver \<Rightarrow> nat call) list \<Rightarrow> nat call" where
  "chain_all e [] = e"
| "chain_all e (m # ms) = chain_all (chain e m) ms"

definition append_part :: "item_type \<times> string \<Rightarrow> receiver \<Rightarrow> nat call" where
  "append_part p = this_add (Str (snd p)) (fst p)"

subsection \<open>Notions of the specification\<close>

text \<open>
  The six kinds of fragment that the append methods take, and the rendering table of
  the specification: id \<open>#name\<close>, class \<open>.name\<close>, attribute \<open>[expr]\<close>, pseudo-class
  \<open>:name\<close>, pseudo-element \<open>::name\<close>, element \<open>name\<close>.
\<close>

definition simple_kinds :: "item_type set" where
  "simple_kinds = {ELEMENT, ID, CLASS, ATTR, PSEUDO_CLASS, PSEUDO_ELEMENT}"

fun spec_rendered :: "item_type \<times> string \<Rightarrow> string" where
  "spec_rendered (ID, name) = ''#'' @ name"
| "spec_rendered (CLASS, name) = ''.'' @ name"
| "spec_rendered (ATTR, expr) = ''['' @ expr @ '']''"
| "spec_rendered (PSEUDO_CLASS, name) = '':'' @ name"
| "spec_rendered (PSEUDO_ELEMENT, name) = ''::'' @ name"
| "spec_rendered (ELEMENT, name) = name"

text \<open>The number of fragments of a kind in a sequence.\<close>

definition count_of :: "item_type \<Rightarrow> css_item list \<Rightarrow> nat" where
  "count_of t its = length (filter (\<lambda>item. itype item = t) its)"

text \<open>
  A validly built sequence holds fragments only: \<open>add\<close> never stores an item of type
  \<open>SELECTOR\<close>, so no array of a store reached from \<open>empty_store\<close> has one
  (\<open>fragments_only_this_add\<close>, \<open>fragments_only_combine\<close> below).
\<close>

definition fragments_only :: "css_item list \<Rightarrow> bool" where
  "fragments_only its = list_all (\<lambda>item. itype item \<noteq> SELECTOR) its"

text \<open>
  Three stores used as concrete inputs: the operands of a \<open>combine\<close>, the builder
  \<open>element('a').class('c')\<close>, and what
  \<open>combine(element('div'), '+', element('span').class('c'))\<close> leaves.
\<close>

definition store_div_span :: store where
  "store_div_span =
     \<lparr>items = (\<lambda>_. [])(0 := [\<lparr>ivalue = Str ''div'', itype = ELEMENT\<rparr>],
                         1 := [\<lparr>ivalue = Str ''span'', itype = ELEMENT\<rparr>]),
      fresh = 2\<rparr>"

definition store_a_c :: store where
  "store_a_c =
     \<lparr>items = (\<lambda>_. [])(0 := [\<lparr>ivalue = Str ''a'', itype = ELEMENT\<rparr>,
                               \<lparr>ivalue = Str ''.c'', itype = CLASS\<rparr>]),
      fresh = 1\<rparr>"

definition store_div_span_c :: store where
  "store_div_span_c =
     \<lparr>items = (\<lambda>_. [])(0 := [\<lparr>ivalue = Str ''div'', itype = ELEMENT\<rparr>,
                               \<lparr>ivalue = Str '' + '', itype = COMBINATOR\<rparr>,
                               \<lparr>ivalue = Str ''span'', itype = ELEMENT\<rparr>,
                               \<lparr>ivalue = Str ''.c'', itype = CLASS\<rparr>],
                         1 := [\<lparr>ivalue = Str ''span'', itype = ELEMENT\<rparr>,
                               \<lparr>ivalue = Str ''.c'', itype = CLASS\<rparr>]),
      fresh = 2\<rparr>"

section \<open>\<open>Rectangle\<close>\<close>

text \<open>
  \<open>Rectangle(width, height)\<close> returns an object literal with the two fields and the
  method \<open>getArea\<close>, which reads \<open>this.width\<close> and \<open>this.height\<close> when it is called. The
  object is a record; the caller's assignment to a field is a record update. The
  type of the fields is any type with a multiplication: the code multiplies whatever
  it was given.
\<close>

record 'n rectangle =
  width :: 'n
  height :: 'n

definition Rectangle :: "'n \<Rightarrow> 'n \<Rightarrow> 'n rectangle" where
  "Rectangle w h = \<lparr>width = w, height = h\<rparr>"

definition getArea :: "('n::times) rectangle \<Rightarrow> 'n" where
  "getArea this = width this * height this"

section \<open>\<open>getJSON\<close> and \<open>fromJSON\<close>\<close>

text \<open>
  Both functions hand their work to built-ins of the language: \<open>JSON.stringify\<close>,
  \<open>JSON.parse\<close>, \<open>Object.assign\<close> and \<open>new\<close>. The built-ins are modelled after their
  definitions in ECMA-262 (\<open>SerializeJSONProperty\<close>, \<open>SerializeJSONObject\<close>,
  \<open>SerializeJSONArray\<close>, \<open>QuoteJSONString\<close>, the JSON grammar, \<open>CreateDataProperty\<close>,
  \<open>[[Construct]]\<close>, \<open>OrdinarySet\<close>, \<open>OrdinaryOwnPropertyKeys\<close>), called as the source
  calls them: no replacer, no indentation, no reviver.
\<close>

subsection \<open>Strings and numbers\<close>

text \<open>
  A string of the language is a sequence of UTF-16 code units; \<open>units\<close> gives the
  code units of an ASCII literal. A number is a finite number, \<open>NaN\<close> or an infinity.
  The finite numbers are a type parameter \<open>'n\<close>: the text of a finite number
  (\<open>Number::toString\<close>) and the number of a numeric token are the parameters \<open>nt\<close> and
  \<open>np\<close> of the functions below.
\<close>

type_synonym jstring = "nat list"

definition units :: "string \<Rightarrow> jstring" where
  "units s = map of_char s"

datatype 'n number = Finite 'n | NaN | Infinity | NegInfinity

subsection \<open>The values \<open>JSON.stringify\<close> is given\<close>

text \<open>
  A value is a primitive, a function (never called: the model has no code of
  functions) or a reference to an object of the heap. An object of the heap is a plain
  object, with its own enumerable string-keyed data properties in the order of
  enumeration, or an array, with its elements. A reference can reach itself.
\<close>

datatype 'n js_value =
  Undefined | Null | Bool bool | Num "'n number" | String jstring | Function | Object nat

datatype 'n cell = PlainObject "(jstring \<times> 'n js_value) list" | ArrayObject "'n js_value list"

type_synonym 'n heap = "'n cell list"

definition lookup :: "'n heap \<Rightarrow> nat \<Rightarrow> 'n cell option" where
  "lookup h r = (if r < length h then Some (h ! r) else None)"

text \<open>
  What a call does: it returns, it throws, or it leaves the model. The ways out of
  the model of \<open>getJSON\<close> are a reference to no object of the heap, which no program
  has, and a plain object whose \<open>toJSON\<close> property is a function, which
  \<open>JSON.stringify\<close> would call. In \<open>fromJSON\<close> a constructor or a setter of the caller
  leaves the model when it does not return or when it does more than change the
  object it works on.
\<close>

datatype 'a outcome = Returns 'a | Throws error | Outside_model

subsection \<open>\<open>QuoteJSONString\<close>\<close>

text \<open>
  Code units: 8, 9, 10, 12, 13 are backspace, tab, line feed, form feed, carriage
  return; 34 is the double quote, 92 the backslash, 117 the letter u. A surrogate
  that is not half of a pair is escaped, as is every code unit below 32.
\<close>

definition hex_digit :: "nat \<Rightarrow> nat" where
  "hex_digit d = (if d < 10 then 48 + d else 87 + d)"

definition UnicodeEscape :: "nat \<Rightarrow> jstring" where
  "UnicodeEscape c =
     [92, 117, hex_digit (c div 4096 mod 16), hex_digit (c div 256 mod 16),
      hex_digit (c div 16 mod 16), hex_digit (c mod 16)]"

definition is_high_surrogate :: "nat \<Rightarrow> bool" where
  "is_high_surrogate c = (55296 \<le> c \<and> c \<le> 56319)"

definition is_low_surrogate :: "nat \<Rightarrow> bool" where
  "is_low_surrogate c = (56320 \<le> c \<and> c \<le> 57343)"

fun quote_units :: "jstring \<Rightarrow> jstring" where
  "quote_units [] = []"
| "quote_units (c # cs) =
     (if c = 8 then 92 # units ''b'' @ quote_units cs
      else if c = 9 then 92 # units ''t'' @ quote_units cs
      else if c = 10 then 92 # units ''n'' @ quote_units cs
      else if c = 12 then 92 # units ''f'' @ quote_units cs
      else if c = 13 then 92 # units ''r'' @ quote_units cs
      else if c = 34 then [92, 34] @ quote_units cs
      else if c = 92 then [92, 92] @ quote_units cs
      else if c < 32 then UnicodeEscape c @ quote_units cs
      else if is_high_surrogate c then
        (case cs of
           d # ds \<Rightarrow> if is_low_surrogate d then c # d # quote_units ds
                     else UnicodeEscape c @ quote_units cs
         | [] \<Rightarrow> UnicodeEscape c)
      else if is_low_surrogate c then UnicodeEscape c @ quote_units cs
      else c # quote_units cs)"

definition QuoteJSONString :: "jstring \<Rightarrow> jstring" where
  "QuoteJSONString s = 34 # quote_units s @ [34]"

subsection \<open>\<open>JSON.stringify\<close>\<close>

fun join :: "jstring \<Rightarrow> jstring list \<Rightarrow> jstring" where
  "join sep [] = []"
| "join sep [x] = x"
| "join sep (x # y # ys) = x @ sep @ join sep (y # ys)"

text \<open>
  The properties of an object are serialized in order and the first that does not
  return ends the loop with what it did.
\<close>

fun sequence :: "'a outcome list \<Rightarrow> 'a list outcome" where
  "sequence [] = Returns []"
| "sequence (Returns x # os) =
     (case sequence os of
        Returns xs \<Rightarrow> Returns (x # xs)
      | Throws e \<Rightarrow> Throws e
      | Outside_model \<Rightarrow> Outside_model)"
| "sequence (Throws e # os) = Throws e"
| "sequence (Outside_model # os) = Outside_model"

definition callable_toJSON :: "(jstring \<times> 'n js_value) list \<Rightarrow> bool" where
  "callable_toJSON props = (map_of props (units ''toJSON'') = Some Function)"

text \<open>
  A property whose value serializes to \<open>undefined\<close> is left out of an object and is
  the text \<open>null\<close> in an array.
\<close>

definition member_text :: "jstring \<times> jstring option \<Rightarrow> jstring list" where
  "member_text m =
     (case m of (k, None) \<Rightarrow> [] | (k, Some s) \<Rightarrow> [QuoteJSONString k @ units '':'' @ s])"

definition element_text :: "jstring option \<Rightarrow> jstring" where
  "element_text e = (case e of None \<Rightarrow> units ''null'' | Some s \<Rightarrow> s)"

text \<open>
  \<open>SerializeJSONProperty\<close>, with \<open>SerializeJSONObject\<close> and \<open>SerializeJSONArray\<close> in
  its last equation. \<open>stack\<close> is the list of the objects being serialized; an object
  found on it is a cycle. The result \<open>None\<close> is the value \<open>undefined\<close>. The function
  is total: each nested call has one more object of the heap on the stack.
\<close>

function SerializeJSONProperty ::
  "('n \<Rightarrow> jstring) \<Rightarrow> 'n heap \<Rightarrow> nat list \<Rightarrow> 'n js_value \<Rightarrow> jstring option outcome" where
  "SerializeJSONProperty nt h stack Undefined = Returns None"
| "SerializeJSONProperty nt h stack Function = Returns None"
| "SerializeJSONProperty nt h stack Null = Returns (Some (units ''null''))"
| "SerializeJSONProperty nt h stack (Bool b) =
     Returns (Some (if b then units ''true'' else units ''false''))"
| "SerializeJSONProperty nt h stack (String s) = Returns (Some (QuoteJSONString s))"
| "SerializeJSONProperty nt h stack (Num x) =
     Returns (Some (case x of Finite n \<Rightarrow> nt n | _ \<Rightarrow> units ''null''))"
| "SerializeJSONProperty nt h stack (Object r) =
     (case lookup h r of
        None \<Rightarrow> Outside_model
      | Some (PlainObject props) \<Rightarrow>
          if callable_toJSON props then Outside_model
          else if r \<in> set stack then Throws TypeError
          else
            (case sequence (map (\<lambda>(k, v). SerializeJSONProperty nt h (r # stack) v) props) of
               Returns strs \<Rightarrow>
                 Returns (Some (units ''{'' @
                   join (units '','') (concat (map member_text (zip (map fst props) strs))) @
                   units ''}''))
             | Throws e \<Rightarrow> Throws e
             | Outside_model \<Rightarrow> Outside_model)
      | Some (ArrayObject elems) \<Rightarrow>
          if r \<in> set stack then Throws TypeError
          else
            (case sequence (map (SerializeJSONProperty nt h (r # stack)) elems) of
               Returns strs \<Rightarrow>
                 Returns (Some (units ''['' @ join (units '','') (map element_text strs) @
                   units '']''))
             | Throws e \<Rightarrow> Throws e
             | Outside_model \<Rightarrow> Outside_model))"
  by pat_completeness auto
termination
proof (relation "measure (\<lambda>(nt, h, stack, v). card ({..<length h} - set stack))")
  show "wf (measure (\<lambda>(nt, h, stack, v). card ({..<length h} - set stack)))" by simp
next
  fix nt :: "'n \<Rightarrow> jstring" and h :: "'n heap" and stack r x2 x1 x y z
  assume "lookup h r = Some x2" and "r \<notin> set stack"
  then have "r \<in> {..<length h} - set stack" by (auto simp: lookup_def split: if_splits)
  then have "{..<length h} - set (r # stack) \<subset> {..<length h} - set stack" by auto
  then have "card ({..<length h} - set (r # stack)) < card ({..<length h} - set stack)"
    by (intro psubset_card_mono) simp_all
  then show "((nt, h, r # stack, z), nt, h, stack, Object r)
       \<in> measure (\<lambda>(nt, h, stack, v). card ({..<length h} - set stack))" by simp
next
  fix nt :: "'n \<Rightarrow> jstring" and h :: "'n heap" and stack r x2 x2a z
  assume "lookup h r = Some x2" and "r \<notin> set stack"
  then have "r \<in> {..<length h} - set stack" by (auto simp: lookup_def split: if_splits)
  then have "{..<length h} - set (r # stack) \<subset> {..<length h} - set stack" by auto
  then have "card ({..<length h} - set (r # stack)) < card ({..<length h} - set stack)"
    by (intro psubset_card_mono) simp_all
  then show "((nt, h, r # stack, z), nt, h, stack, Object r)
       \<in> measure (\<lambda>(nt, h, stack, v). card ({..<length h} - set stack))" by simp
qed

definition JSON_stringify ::
  "('n \<Rightarrow> jstring) \<Rightarrow> 'n heap \<Rightarrow> 'n js_value \<Rightarrow> jstring option outcome" where
  "JSON_stringify nt h v = SerializeJSONProperty nt h [] v"

text \<open>\<open>getJSON(obj)\<close>, in the heap \<open>h\<close>.\<close>

definition getJSON ::
  "('n \<Rightarrow> jstring) \<Rightarrow> 'n heap \<Rightarrow> 'n js_value \<Rightarrow> jstring option outcome" where
  "getJSON nt h obj = JSON_stringify nt h obj"

subsection \<open>\<open>JSON.parse\<close>\<close>

text \<open>
  What \<open>JSON.parse\<close> makes is a tree: fresh objects and arrays, finite numbers only.
  The members of an object are in the order of their creation.
\<close>

datatype 'n json =
  JNull | JBool bool | JNumber 'n | JString jstring | JArray "'n json list"
| JObject "(jstring \<times> 'n json) list"

definition is_ws :: "nat \<Rightarrow> bool" where
  "is_ws c = (c = 32 \<or> c = 9 \<or> c = 10 \<or> c = 13)"

definition skip_ws :: "jstring \<Rightarrow> jstring" where
  "skip_ws cs = dropWhile is_ws cs"

definition is_digit :: "nat \<Rightarrow> bool" where
  "is_digit c = (48 \<le> c \<and> c \<le> 57)"

text \<open>The code units of a numeric token: the digits, \<open>-\<close>, \<open>+\<close>, \<open>.\<close>, \<open>e\<close>, \<open>E\<close>.\<close>

definition is_number_unit :: "nat \<Rightarrow> bool" where
  "is_number_unit c = (is_digit c \<or> c = 45 \<or> c = 43 \<or> c = 46 \<or> c = 101 \<or> c = 69)"

definition hex_value :: "nat \<Rightarrow> nat option" where
  "hex_value c =
     (if 48 \<le> c \<and> c \<le> 57 then Some (c - 48)
      else if 97 \<le> c \<and> c \<le> 102 then Some (c - 87)
      else if 65 \<le> c \<and> c \<le> 70 then Some (c - 55)
      else None)"

text \<open>
  The code unit after a backslash and the code unit it stands for: the double quote,
  the backslash and the slash for themselves, \<open>b\<close>, \<open>f\<close>, \<open>n\<close>, \<open>r\<close>, \<open>t\<close> for backspace,
  form feed, line feed, carriage return and tab.
\<close>

definition escape_unit :: "nat \<Rightarrow> nat option" where
  "escape_unit e =
     (if e = 34 then Some 34
      else if e = 92 then Some 92
      else if e = 47 then Some 47
      else if e = 98 then Some 8
      else if e = 102 then Some 12
      else if e = 110 then Some 10
      else if e = 114 then Some 13
      else if e = 116 then Some 9
      else None)"

definition cons_unit :: "nat \<Rightarrow> (jstring \<times> jstring) option \<Rightarrow> (jstring \<times> jstring) option" where
  "cons_unit u r = (case r of None \<Rightarrow> None | Some (s, rest) \<Rightarrow> Some (u # s, rest))"

text \<open>
  A string, after its opening quote: the string and the text after its closing quote.
\<close>

fun parse_string :: "jstring \<Rightarrow> (jstring \<times> jstring) option" where
  "parse_string [] = None"
| "parse_string (c # cs) =
     (if c = 34 then Some ([], cs)
      else if c = 92 then
        (case cs of
           [] \<Rightarrow> None
         | e # es \<Rightarrow>
             if e = 117 then
               (case es of
                  x3 # x2 # x1 # x0 # rest \<Rightarrow>
                    (case (hex_value x3, hex_value x2, hex_value x1, hex_value x0) of
                       (Some d3, Some d2, Some d1, Some d0) \<Rightarrow>
                         cons_unit (d3 * 4096 + d2 * 256 + d1 * 16 + d0) (parse_string rest)
                     | _ \<Rightarrow> None)
                | _ \<Rightarrow> None)
             else (case escape_unit e of
                     None \<Rightarrow> None
                   | Some u \<Rightarrow> cons_unit u (parse_string es)))
      else if c < 32 then None
      else cons_unit c (parse_string cs))"

text \<open>
  A number: the longest run of code units of a numeric token, which \<open>np\<close> accepts or
  not. In a text of the grammar a number is followed by white space, a comma, a
  bracket or the end, so the run is the token.
\<close>

definition parse_number ::
  "(jstring \<Rightarrow> 'n option) \<Rightarrow> jstring \<Rightarrow> ('n json \<times> jstring) option" where
  "parse_number np cs =
     (case np (takeWhile is_number_unit cs) of
        None \<Rightarrow> None
      | Some n \<Rightarrow> Some (JNumber n, dropWhile is_number_unit cs))"

definition parse_literal :: "jstring \<Rightarrow> 'n json \<Rightarrow> jstring \<Rightarrow> ('n json \<times> jstring) option" where
  "parse_literal word v cs =
     (if take (length word) cs = word then Some (v, drop (length word) cs) else None)"

text \<open>
  \<open>CreateDataProperty\<close>: a key met again keeps its place and takes the new value.
\<close>

fun CreateDataProperty :: "('k \<times> 'v) list \<Rightarrow> 'k \<Rightarrow> 'v \<Rightarrow> ('k \<times> 'v) list" where
  "CreateDataProperty [] k v = [(k, v)]"
| "CreateDataProperty (p # ps) k v =
     (if fst p = k then (k, v) # ps else p # CreateDataProperty ps k v)"

definition object_of_members :: "('k \<times> 'v) list \<Rightarrow> ('k \<times> 'v) list" where
  "object_of_members ms = foldl (\<lambda>obj (k, v). CreateDataProperty obj k v) [] ms"

text \<open>
  The grammar, by recursive descent. The number is fuel: each call of \<open>parse_value\<close>,
  \<open>parse_elements\<close> or \<open>parse_members\<close> by one of them takes one. Of two calls in a
  row at least one comes after a code unit was read, so a text of \<open>n\<close> code units
  never needs more than \<open>2 * n + 1\<close>, which is what \<open>JSON_parse\<close> gives.
  The code units 91, 93, 123, 125, 44, 58 are the brackets, the braces, the comma and
  the colon; 116, 102, 110 are the first letters of \<open>true\<close>, \<open>false\<close>, \<open>null\<close>; 45 is the
  minus sign.
\<close>

fun parse_value ::
    "(jstring \<Rightarrow> 'n option) \<Rightarrow> nat \<Rightarrow> jstring \<Rightarrow> ('n json \<times> jstring) option"
  and parse_elements ::
    "(jstring \<Rightarrow> 'n option) \<Rightarrow> nat \<Rightarrow> jstring \<Rightarrow> ('n json list \<times> jstring) option"
  and parse_members ::
    "(jstring \<Rightarrow> 'n option) \<Rightarrow> nat \<Rightarrow> jstring \<Rightarrow> ((jstring \<times> 'n json) list \<times> jstring) option"
where
  "parse_value np 0 cs = None"
| "parse_value np (Suc n) cs =
     (case skip_ws cs of
        [] \<Rightarrow> None
      | c # r \<Rightarrow>
          if c = 34 then
            (case parse_string r of None \<Rightarrow> None | Some (s, r') \<Rightarrow> Some (JString s, r'))
          else if c = 91 then
            (case skip_ws r of
               [] \<Rightarrow> None
             | d # r' \<Rightarrow>
                 if d = 93 then Some (JArray [], r')
                 else (case parse_elements np n r of
                         None \<Rightarrow> None
                       | Some (vs, r'') \<Rightarrow> Some (JArray vs, r'')))
          else if c = 123 then
            (case skip_ws r of
               [] \<Rightarrow> None
             | d # r' \<Rightarrow>
                 if d = 125 then Some (JObject [], r')
                 else (case parse_members np n r of
                         None \<Rightarrow> None
                       | Some (ms, r'') \<Rightarrow> Some (JObject (object_of_members ms), r'')))
          else if c = 116 then parse_literal (units ''true'') (JBool True) (c # r)
          else if c = 102 then parse_literal (units ''false'') (JBool False) (c # r)
          else if c = 110 then parse_literal (units ''null'') JNull (c # r)
          else if c = 45 \<or> is_digit c then parse_number np (c # r)
          else None)"
| "parse_elements np 0 cs = None"
| "parse_elements np (Suc n) cs =
     (case parse_value np n cs of
        None \<Rightarrow> None
      | Some (v, r) \<Rightarrow>
          (case skip_ws r of
             [] \<Rightarrow> None
           | d # r' \<Rightarrow>
               if d = 44 then
                 (case parse_elements np n r' of
                    None \<Rightarrow> None
                  | Some (vs, r'') \<Rightarrow> Some (v # vs, r''))
               else if d = 93 then Some ([v], r')
               else None))"
| "parse_members np 0 cs = None"
| "parse_members np (Suc n) cs =
     (case skip_ws cs of
        [] \<Rightarrow> None
      | q # r0 \<Rightarrow>
          if q \<noteq> 34 then None
          else
            (case parse_string r0 of
               None \<Rightarrow> None
             | Some (k, r1) \<Rightarrow>
                 (case skip_ws r1 of
                    [] \<Rightarrow> None
                  | colon # r2 \<Rightarrow>
                      if colon \<noteq> 58 then None
                      else
                        (case parse_value np n r2 of
                           None \<Rightarrow> None
                         | Some (v, r3) \<Rightarrow>
                             (case skip_ws r3 of
                                [] \<Rightarrow> None
                              | d # r4 \<Rightarrow>
                                  if d = 44 then
                                    (case parse_members np n r4 of
                                       None \<Rightarrow> None
                                     | Some (ms, r5) \<Rightarrow> Some ((k, v) # ms, r5))
                                  else if d = 125 then Some ([(k, v)], r4)
                                  else None)))))"

definition JSON_parse :: "(jstring \<Rightarrow> 'n option) \<Rightarrow> jstring \<Rightarrow> error + 'n json" where
  "JSON_parse np text =
     (case parse_value np (Suc (2 * length text)) text of
        None \<Rightarrow> Inl SyntaxError
      | Some (v, r) \<Rightarrow> if skip_ws r = [] then Inr v else Inl SyntaxError)"

subsection \<open>Integers in decimal\<close>

text \<open>
  The text of a natural number, as of an array index, and the number of such a text.
  They are the \<open>nt\<close> and \<open>np\<close> of the concrete inputs below.
\<close>

function dec :: "nat \<Rightarrow> jstring" where
  "dec n = (if n < 10 then [48 + n] else dec (n div 10) @ [48 + n mod 10])"
  by pat_completeness auto
termination
  by (relation "measure (\<lambda>n. n)") auto

declare dec.simps [simp del]

definition undec :: "jstring \<Rightarrow> nat option" where
  "undec cs =
     (if cs \<noteq> [] \<and> list_all is_digit cs \<and> (hd cs \<noteq> 48 \<or> length cs = 1)
      then Some (foldl (\<lambda>a c. 10 * a + (c - 48)) 0 cs) else None)"

subsection \<open>\<open>fromJSON\<close>\<close>

text \<open>
  \<open>fromJSON\<close> runs \<open>new proto.constructor()\<close>, then \<open>JSON.parse\<close>, then \<open>Object.assign\<close>
  on the object that \<open>new\<close> gave. The objects are the ordinary objects of ECMA-262. A
  property is a data property, with its value and its attributes \<open>[[Writable]]\<close> and
  \<open>[[Enumerable]]\<close>, or an accessor property, with its setter if it has one and
  \<open>[[Enumerable]]\<close>. A value held by a property is a parsed tree or a value that code
  of the caller put there, of a type \<open>'d\<close>. A setter is code of the caller too: an
  accessor property holds its name, of a type \<open>'s\<close>.
\<close>

datatype ('d, 'n) js_field = Default 'd | Parsed "'n json"

datatype ('s, 'd, 'n) property =
  Data_property "('d, 'n) js_field" bool bool
| Accessor_property "'s option" bool

type_synonym ('s, 'd, 'n) properties = "jstring \<rightharpoonup> ('s, 'd, 'n) property"

text \<open>
  An object has its own properties, its prototype chain and \<open>[[Extensible]]\<close>. The
  chain goes from the \<open>[[Prototype]]\<close> of the object to the last prototype, each with a
  name of a type \<open>'c\<close> and its own properties; it is empty when the \<open>[[Prototype]]\<close> is
  \<open>null\<close>. The kind of an object is its chain.
\<close>

record ('c, 's, 'd, 'n) js_object =
  own_properties :: "('s, 'd, 'n) properties"
  prototype_chain :: "('c \<times> ('s, 'd, 'n) properties) list"
  extensible :: bool

text \<open>
  What a call of a setter does, with the object it is called on and the value it is
  given: it returns and leaves the object changed, or it throws, or it leaves the
  model.
\<close>

type_synonym ('c, 's, 'd, 'n) setters =
  "'s \<Rightarrow> ('c, 's, 'd, 'n) js_object \<Rightarrow> ('d, 'n) js_field \<Rightarrow> ('c, 's, 'd, 'n) js_object outcome"

text \<open>
  A constructor has a \<open>prototype\<close> property, here with the chain behind it, and a body.
  The body is run on the new object as \<open>this\<close>, with no argument: it leaves \<open>this\<close>
  changed and returns an object of its own or none, or it throws. \<open>Rectangle\<close> of this
  file returns an object of its own. The template \<open>proto\<close> is known by the value of
  \<open>proto.constructor\<close>: a constructor or not.
\<close>

record ('c, 's, 'd, 'n) constructor_fn =
  prototype :: "('c \<times> ('s, 'd, 'n) properties) list"
  body :: "('c, 's, 'd, 'n) js_object \<Rightarrow>
           (('c, 's, 'd, 'n) js_object \<times> ('c, 's, 'd, 'n) js_object option) outcome"

record ('c, 's, 'd, 'n) template =
  constructor :: "('c, 's, 'd, 'n) constructor_fn option"

text \<open>
  \<open>new proto.constructor()\<close>. What is not a constructor throws a \<open>TypeError\<close>. A
  constructor gets a new extensible object without properties whose \<open>[[Prototype]]\<close> is
  the \<open>prototype\<close> of the constructor; the result is the object the body returns, or
  the new object when the body returns none.
\<close>

definition new_object ::
  "('c, 's, 'd, 'n) constructor_fn option \<Rightarrow> ('c, 's, 'd, 'n) js_object outcome" where
  "new_object c =
     (case c of
        None \<Rightarrow> Throws TypeError
      | Some ctor \<Rightarrow>
          (case body ctor
                  \<lparr>own_properties = Map.empty, prototype_chain = prototype ctor,
                   extensible = True\<rparr> of
             Returns (this, result) \<Rightarrow>
               (case result of None \<Rightarrow> Returns this | Some obj \<Rightarrow> Returns obj)
           | Throws e \<Rightarrow> Throws e
           | Outside_model \<Rightarrow> Outside_model))"

text \<open>
  The own enumerable properties of the source of \<open>Object.assign\<close>, in the order of
  \<open>[[OwnPropertyKeys]]\<close>: the members of an object, those whose key is an array index
  first, by index, then the others as they were created; the elements of an array
  and the code units of a string under their indices; nothing for \<open>null\<close>, a boolean
  or a number.
\<close>

definition array_index :: "jstring \<Rightarrow> nat option" where
  "array_index k =
     (case undec k of None \<Rightarrow> None | Some i \<Rightarrow> if i < 4294967295 then Some i else None)"

definition OrdinaryOwnPropertyKeys :: "(jstring \<times> 'a) list \<Rightarrow> (jstring \<times> 'a) list" where
  "OrdinaryOwnPropertyKeys members =
     sort_key (\<lambda>m. the (array_index (fst m))) (filter (\<lambda>m. array_index (fst m) \<noteq> None) members) @
     filter (\<lambda>m. array_index (fst m) = None) members"

definition own_enumerable :: "'n json \<Rightarrow> (jstring \<times> 'n json) list" where
  "own_enumerable source =
     (case source of
        JObject members \<Rightarrow> OrdinaryOwnPropertyKeys members
      | JArray elems \<Rightarrow> zip (map dec [0..<length elems]) elems
      | JString s \<Rightarrow> zip (map dec [0..<length s]) (map (\<lambda>c. JString [c]) s)
      | _ \<Rightarrow> [])"

text \<open>
  \<open>Object.assign\<close> sets each property with \<open>Set(to, key, value, true)\<close>, which is
  \<open>OrdinarySet\<close> with the target as the receiver and a \<open>TypeError\<close> when it fails. The
  property is looked for on the target, then along the prototype chain
  (\<open>inherited_property\<close>). A data property that is not writable, and an accessor
  without a setter, fail; a setter is called; otherwise the value goes to the own
  property of the target (\<open>set_own\<close>), which is created, writable and enumerable, if
  the target has none and is extensible.
\<close>

fun inherited_property :: "('c \<times> ('k \<rightharpoonup> 'p)) list \<Rightarrow> 'k \<Rightarrow> 'p option" where
  "inherited_property [] k = None"
| "inherited_property (parent # parents) k =
     (case snd parent k of Some p \<Rightarrow> Some p | None \<Rightarrow> inherited_property parents k)"

definition set_own ::
  "('c, 's, 'd, 'n) js_object \<Rightarrow> jstring \<Rightarrow> ('d, 'n) js_field \<Rightarrow>
   ('c, 's, 'd, 'n) js_object outcome" where
  "set_own obj k v =
     (case own_properties obj k of
        Some (Accessor_property s en) \<Rightarrow> Throws TypeError
      | Some (Data_property old wr en) \<Rightarrow>
          if wr then Returns (obj\<lparr>own_properties := (own_properties obj)(k \<mapsto> Data_property v wr en)\<rparr>)
          else Throws TypeError
      | None \<Rightarrow>
          if extensible obj
          then Returns (obj\<lparr>own_properties := (own_properties obj)(k \<mapsto> Data_property v True True)\<rparr>)
          else Throws TypeError)"

definition Set_property ::
  "('c, 's, 'd, 'n) setters \<Rightarrow> ('c, 's, 'd, 'n) js_object \<Rightarrow> jstring \<Rightarrow> ('d, 'n) js_field \<Rightarrow>
   ('c, 's, 'd, 'n) js_object outcome" where
  "Set_property call_setter obj k v =
     (case (case own_properties obj k of
              Some p \<Rightarrow> Some p
            | None \<Rightarrow> inherited_property (prototype_chain obj) k) of
        None \<Rightarrow> set_own obj k v
      | Some (Data_property old wr en) \<Rightarrow> if wr then set_own obj k v else Throws TypeError
      | Some (Accessor_property None en) \<Rightarrow> Throws TypeError
      | Some (Accessor_property (Some s) en) \<Rightarrow> call_setter s obj v)"

text \<open>The loop of \<open>Object.assign\<close>: the first property that is not set ends it.\<close>

fun Set_all ::
  "('c, 's, 'd, 'n) setters \<Rightarrow> ('c, 's, 'd, 'n) js_object \<Rightarrow> (jstring \<times> 'n json) list \<Rightarrow>
   ('c, 's, 'd, 'n) js_object outcome" where
  "Set_all call_setter obj [] = Returns obj"
| "Set_all call_setter obj (m # ms) =
     (case Set_property call_setter obj (fst m) (Parsed (snd m)) of
        Returns obj' \<Rightarrow> Set_all call_setter obj' ms
      | Throws e \<Rightarrow> Throws e
      | Outside_model \<Rightarrow> Outside_model)"

definition Object_assign ::
  "('c, 's, 'd, 'n) setters \<Rightarrow> ('c, 's, 'd, 'n) js_object \<Rightarrow> 'n json \<Rightarrow>
   ('c, 's, 'd, 'n) js_object outcome" where
  "Object_assign call_setter target source = Set_all call_setter target (own_enumerable source)"

text \<open>
  \<open>fromJSON(proto, json)\<close>, with the setters of the caller and the parser of numeric
  tokens. The object is made before the text is parsed.
\<close>

definition fromJSON ::
  "('c, 's, 'd, 'n) setters \<Rightarrow> (jstring \<Rightarrow> 'n option) \<Rightarrow> ('c, 's, 'd, 'n) template \<Rightarrow> jstring \<Rightarrow>
   ('c, 's, 'd, 'n) js_object outcome" where
  "fromJSON call_setter np proto json =
     (case new_object (constructor proto) of
        Returns obj \<Rightarrow>
          (case JSON_parse np json of
             Inl e \<Rightarrow> Throws e
           | Inr tree \<Rightarrow> Object_assign call_setter obj tree)
      | Throws e \<Rightarrow> Throws e
      | Outside_model \<Rightarrow> Outside_model)"

subsection \<open>Notions of the specification\<close>

text \<open>
  A value contains a cyclic reference when a path of the heap from it meets an
  object twice. A path is a list of addresses, each with a property or an element that
  refers to the next.
\<close>

fun children :: "'n cell \<Rightarrow> 'n js_value list" where
  "children (PlainObject props) = map snd props"
| "children (ArrayObject elems) = elems"

definition edge :: "'n heap \<Rightarrow> nat \<Rightarrow> nat \<Rightarrow> bool" where
  "edge h a b = (case lookup h a of None \<Rightarrow> False | Some c \<Rightarrow> Object b \<in> set (children c))"


text \<open>
  The objects a value reaches: the object itself and every object that a property or
  an element of a reached object refers to. A value is plain data when every object
  it reaches is an object of the heap and no plain object it reaches has a function
  as its \<open>toJSON\<close>, which \<open>JSON.stringify\<close> would call before it looks for a cycle.
\<close>

inductive reachable :: "'n heap \<Rightarrow> nat \<Rightarrow> nat \<Rightarrow> bool" for h :: "'n heap" and r :: nat where
  reachable_itself: "reachable h r r"
| reachable_edge: "reachable h r a \<Longrightarrow> edge h a b \<Longrightarrow> reachable h r b"



text \<open>
  The words of the specification for \<open>fromJSON\<close>. The enumerable fields of an object
  are its own enumerable data properties, each with its value. An object takes a name
  as a field when setting the name on it makes or overwrites such a field: the object
  has the name as a writable enumerable data property, or it is extensible, has no
  property of the name, and what it inherits under the name is nothing or a writable
  data property (not a read-only property, not an accessor: every object whose chain
  ends in \<open>Object.prototype\<close> inherits the accessor \<open>__proto__\<close>).
\<close>

definition enumerable_fields ::
  "('c, 's, 'd, 'n) js_object \<Rightarrow> jstring \<rightharpoonup> ('d, 'n) js_field" where
  "enumerable_fields obj k =
     (case own_properties obj k of
        Some (Data_property v wr en) \<Rightarrow> if en then Some v else None
      | _ \<Rightarrow> None)"

definition takes_field :: "('c, 's, 'd, 'n) js_object \<Rightarrow> jstring \<Rightarrow> bool" where
  "takes_field obj k =
     (case own_properties obj k of
        Some (Data_property old wr en) \<Rightarrow> wr \<and> en
      | Some (Accessor_property s en) \<Rightarrow> False
      | None \<Rightarrow>
          extensible obj \<and>
          (case inherited_property (prototype_chain obj) k of
             None \<Rightarrow> True
           | Some (Data_property old wr en) \<Rightarrow> wr
           | Some (Accessor_property s en) \<Rightarrow> False))"

text \<open>
  Concrete inputs. \<open>Object.prototype\<close>, with the accessor \<open>__proto__\<close> and its methods.
  Three templates: the prototype of a constructor \<open>Circle\<close> that sets \<open>this.radius\<close> to
  its argument, which is \<open>undefined\<close> when it is called with none; the prototype of
  \<open>Rectangle\<close> of this file, which returns an object literal; the prototype of
  \<open>class Acc { set width(v) { this.w2 = v; } }\<close>. The two setters of these inputs: that
  of \<open>Acc\<close>, whose assignment finds no \<open>w2\<close> along the chain of an \<open>Acc\<close> and sets the own
  property; and the built-in setter of \<open>__proto__\<close>, which makes an object or \<open>null\<close> the
  prototype of an extensible object, throws a \<open>TypeError\<close> on an object that is not
  extensible and ignores a primitive value (an array as a prototype, and a value that
  is not a parsed tree, are left out).
  A heap whose first object has itself as a property and whose second object, not
  reached from the first, has a function as its \<open>toJSON\<close>.
\<close>

definition Object_prototype :: "string \<times> (string, nat js_value, nat) properties" where
  "Object_prototype =
     (''Object.prototype'',
      map_of ((units ''__proto__'', Accessor_property (Some ''set __proto__'') False) #
              map (\<lambda>name. (units name, Data_property (Default Function) True False))
                [''constructor'', ''hasOwnProperty'', ''isPrototypeOf'',
                 ''propertyIsEnumerable'', ''toLocaleString'', ''toString'', ''valueOf'',
                 ''__defineGetter__'', ''__defineSetter__'', ''__lookupGetter__'',
                 ''__lookupSetter__'']))"

definition Circle_prototype :: "(string, string, nat js_value, nat) template" where
  "Circle_prototype =
     \<lparr>constructor = Some
        \<lparr>prototype =
           [(''Circle.prototype'',
             [units ''constructor'' \<mapsto> Data_property (Default Function) True False]),
            Object_prototype],
         body = (\<lambda>this. Returns
           (this\<lparr>own_properties := (own_properties this)
               (units ''radius'' \<mapsto> Data_property (Default Undefined) True True)\<rparr>, None))\<rparr>\<rparr>"

definition Rectangle_prototype :: "(string, string, nat js_value, nat) template" where
  "Rectangle_prototype =
     \<lparr>constructor = Some
        \<lparr>prototype =
           [(''Rectangle.prototype'',
             [units ''constructor'' \<mapsto> Data_property (Default Function) True False]),
            Object_prototype],
         body = (\<lambda>this. Returns
           (this,
            Some \<lparr>own_properties =
                    [units ''width'' \<mapsto> Data_property (Default Undefined) True True,
                     units ''height'' \<mapsto> Data_property (Default Undefined) True True,
                     units ''getArea'' \<mapsto> Data_property (Default Function) True True],
                  prototype_chain = [Object_prototype],
                  extensible = True\<rparr>))\<rparr>\<rparr>"

definition Acc_prototype :: "(string, string, nat js_value, nat) template" where
  "Acc_prototype =
     \<lparr>constructor = Some
        \<lparr>prototype =
           [(''Acc.prototype'',
             [units ''constructor'' \<mapsto> Data_property (Default Function) True False,
              units ''width'' \<mapsto> Accessor_property (Some ''set width'') False]),
            Object_prototype],
         body = (\<lambda>this. Returns (this, None))\<rparr>\<rparr>"

definition example_setters :: "(string, string, nat js_value, nat) setters" where
  "example_setters s obj v =
     (if s = ''set width'' then set_own obj (units ''w2'') v
      else if s = ''set __proto__'' then
        (case v of
           Default d \<Rightarrow> Outside_model
         | Parsed JNull \<Rightarrow>
             if extensible obj \<or> prototype_chain obj = []
             then Returns (obj\<lparr>prototype_chain := []\<rparr>)
             else Throws TypeError
         | Parsed (JObject members) \<Rightarrow>
             if extensible obj
             then Returns (obj\<lparr>prototype_chain :=
                    [(''parsed'',
                      map_of (map (\<lambda>m. (fst m, Data_property (Parsed (snd m)) True True)) members)),
                     Object_prototype]\<rparr>)
             else Throws TypeError
         | Parsed (JArray elems) \<Rightarrow> Outside_model
         | Parsed primitive \<Rightarrow> Returns obj)
      else Outside_model)"


subsection \<open>Notions of the round trip\<close>

text \<open>
  The text of a tree: what \<open>JSON.stringify\<close> writes for a value that is this tree.
\<close>

fun JSON_text :: "('n \<Rightarrow> jstring) \<Rightarrow> 'n json \<Rightarrow> jstring" where
  "JSON_text nt JNull = units ''null''"
| "JSON_text nt (JBool b) = (if b then units ''true'' else units ''false'')"
| "JSON_text nt (JNumber n) = nt n"
| "JSON_text nt (JString s) = QuoteJSONString s"
| "JSON_text nt (JArray ts) =
     units ''['' @ join (units '','') (map (JSON_text nt) ts) @ units '']''"
| "JSON_text nt (JObject ms) =
     units ''{'' @
     join (units '','')
       (map (\<lambda>m. QuoteJSONString (fst m) @ units '':'' @ JSON_text nt (snd m)) ms) @
     units ''}''"

definition member_of :: "('n \<Rightarrow> jstring) \<Rightarrow> jstring \<times> 'n json \<Rightarrow> jstring" where
  "member_of nt m = QuoteJSONString (fst m) @ units '':'' @ JSON_text nt (snd m)"

text \<open>
  The two parameters agree when the text of every finite number is a numeric token
  that starts with a digit or the minus sign, as the texts of \<open>Number::toString\<close> do,
  and parses back to the number. (Of the finite numbers of the language only \<open>-0\<close>,
  whose text is \<open>0\<close>, does not.)
\<close>

definition number_format :: "('n \<Rightarrow> jstring) \<Rightarrow> (jstring \<Rightarrow> 'n option) \<Rightarrow> bool" where
  "number_format nt np =
     (\<forall>n. np (nt n) = Some n \<and> nt n \<noteq> [] \<and> list_all is_number_unit (nt n) \<and>
          (hd (nt n) = 45 \<or> is_digit (hd (nt n))))"

text \<open>
  \<open>denotes h v t\<close>: in the heap \<open>h\<close> the value \<open>v\<close> is the tree \<open>t\<close>. Such a value is
  composed only of finite numbers, strings, booleans, \<open>null\<close>, arrays and plain objects
  (whose keys are distinct, as the keys of an object are), and is acyclic, a tree
  being finite. An object may be shared.
\<close>

inductive denotes :: "'n heap \<Rightarrow> 'n js_value \<Rightarrow> 'n json \<Rightarrow> bool" for h :: "'n heap" where
  denotes_Null: "denotes h Null JNull"
| denotes_Bool: "denotes h (Bool b) (JBool b)"
| denotes_Num: "denotes h (Num (Finite n)) (JNumber n)"
| denotes_String: "denotes h (String s) (JString s)"
| denotes_Array:
    "lookup h r = Some (ArrayObject elems) \<Longrightarrow> list_all2 (denotes h) elems ts \<Longrightarrow>
     denotes h (Object r) (JArray ts)"
| denotes_Object:
    "lookup h r = Some (PlainObject props) \<Longrightarrow> map fst props = map fst ms \<Longrightarrow>
     distinct (map fst ms) \<Longrightarrow> list_all2 (denotes h) (map snd props) (map snd ms) \<Longrightarrow>
     denotes h (Object r) (JObject ms)"

fun distinct_keys :: "'n json \<Rightarrow> bool" where
  "distinct_keys (JArray ts) = list_all distinct_keys ts"
| "distinct_keys (JObject ms) = (distinct (map fst ms) \<and> list_all (\<lambda>m. distinct_keys (snd m)) ms)"
| "distinct_keys t = True"

text \<open>
  The first code unit of the text of a value, and the texts that can follow a
  number.
\<close>

definition value_start :: "nat \<Rightarrow> bool" where
  "value_start c = (c = 34 \<or> c = 91 \<or> c = 123 \<or> c = 116 \<or> c = 102 \<or> c = 110 \<or> c = 45 \<or> is_digit c)"

definition follow :: "jstring \<Rightarrow> bool" where
  "follow rest = (case rest of [] \<Rightarrow> True | c # cs \<Rightarrow> \<not> is_number_unit c)"

text \<open>
  A concrete input: the object \<open>{a: 1, b: [true, null, 'x']}\<close> and its tree.
\<close>

definition sample_heap :: "nat heap" where
  "sample_heap =
     [PlainObject [(units ''a'', Num (Finite 1)), (units ''b'', Object 1)],
      ArrayObject [Bool True, Null, String (units ''x'')]]"

definition sample_tree :: "nat json" where
  "sample_tree =
     JObject [(units ''a'', JNumber 1),
              (units ''b'', JArray [JBool True, JNull, JString (units ''x'')])]"

section \<open>Properties of the selector builder\<close>

subsection \<open>\<open>validate\<close> and \<open>add\<close>\<close>

lemma typesCounter_eq:
  "typesCounter its t = (if t \<in> set disposableTypes then Some (count_of t its) else None)"
  by (auto simp: typesCounter_def disposableTypes_def count_of_def)

lemma validate_eq:
  "validate its type =
     (if type \<in> set disposableTypes \<and> count_of type its = 1 then Some DuplicateSelectorPartError
      else if its \<noteq> [] \<and> ITEM_TYPES type < ITEM_TYPES (itype (last its)) then Some SelectorOrderError
      else None)"
  by (simp add: validate_def typesCounter_eq lastItem_def)

lemma add_fragment:
  "type \<noteq> SELECTOR \<Longrightarrow>
   add v type this h =
     (case validate (items h this) type of
        Some e \<Rightarrow> (h, Inl e)
      | None \<Rightarrow> (h\<lparr>items := (items h)(this := items h this @
                    [\<lparr>ivalue = newValue v type, itype = type\<rparr>])\<rparr>, Inr this))"
  by (simp add: add_def split: option.splits)

lemma add_selector:
  "add (Ref r) SELECTOR this h =
     (h\<lparr>items := (items h)(this := items h this @ items h r)\<rparr>, Inr this)"
  by (simp add: add_def)

lemma add_error_keeps_store:
  "add v type this h = (h', Inl e) \<Longrightarrow> h' = h"
  by (auto simp: add_def split: option.splits if_splits css_value.splits)

lemma this_add_Instance: "this_add v type (Instance b) h = add v type b h"
  by (simp add: this_add_def)

lemma ITEM_TYPES_le_6: "type \<noteq> SELECTOR \<Longrightarrow> ITEM_TYPES type \<le> 6"
  by (cases type) simp_all

lemma validate_COMBINATOR:
  assumes "fragments_only its"
  shows "validate its COMBINATOR = None"
proof -
  have "ITEM_TYPES (itype (last its)) \<le> 6" if "its \<noteq> []"
  proof -
    from that have "last its \<in> set its" by simp
    with assms have "itype (last its) \<noteq> SELECTOR"
      by (simp add: fragments_only_def list_all_iff)
    then show ?thesis by (rule ITEM_TYPES_le_6)
  qed
  then show ?thesis
    by (auto simp: validate_eq disposableTypes_def)
qed

subsection \<open>Every reachable array holds fragments only\<close>

lemma fragments_only_empty_store: "fragments_only (items empty_store r)"
  by (simp add: empty_store_def fragments_only_def)

lemma fragments_only_add:
  assumes "\<forall>r. fragments_only (items h r)" and "add v type this h = (h', res)"
  shows "\<forall>r. fragments_only (items h' r)"
  using assms
  by (auto simp: add_def fragments_only_def split: option.splits if_splits css_value.splits)

lemma fragments_only_new:
  assumes "\<forall>r. fragments_only (items h r)" and "new_MyCssSelector h = (h', obj)"
  shows "\<forall>r. fragments_only (items h' r)"
  using assms by (auto simp: new_MyCssSelector_def fragments_only_def)

lemma fragments_only_this_add:
  assumes "\<forall>r. fragments_only (items h r)" and "this_add v type this h = (h', res)"
  shows "\<forall>r. fragments_only (items h' r)"
proof (cases this)
  case Facade
  obtain h1 obj where n: "new_MyCssSelector h = (h1, obj)" by (cases "new_MyCssSelector h")
  with assms(2) Facade have "add v type obj h1 = (h', res)" by (simp add: this_add_def)
  with fragments_only_new[OF assms(1) n] show ?thesis by (rule fragments_only_add)
next
  case (Instance b)
  with assms show ?thesis by (simp add: this_add_def fragments_only_add)
qed

lemma fragments_only_combine:
  assumes "\<forall>r. fragments_only (items h r)" and "combine s1 c s2 h = (h', res)"
  shows "\<forall>r. fragments_only (items h' r)"
proof -
  obtain h1 r1 where a: "this_add c COMBINATOR s1 h = (h1, r1)"
    by (cases "this_add c COMBINATOR s1 h")
  have f1: "\<forall>r. fragments_only (items h1 r)" by (rule fragments_only_this_add[OF assms(1) a])
  show ?thesis
  proof (cases r1)
    case (Inl e)
    with a assms(2) have "h' = h1" by (simp add: combine_def)
    with f1 show ?thesis by simp
  next
    case (Inr s)
    with a assms(2) have "add s2 SELECTOR s h1 = (h', res)" by (simp add: combine_def)
    with f1 show ?thesis by (rule fragments_only_add)
  qed
qed

subsection \<open>\<open>combine\<close>, with and without aliasing\<close>

lemma combine_eq:
  assumes "fragments_only (items h L)"
  shows "combine (Instance L) c (Ref R) h =
     (h\<lparr>items := (items h)(L :=
          (items h L @ [\<lparr>ivalue = Str ('' '' @ toString c @ '' ''), itype = COMBINATOR\<rparr>]) @
          (if R = L
           then items h L @ [\<lparr>ivalue = Str ('' '' @ toString c @ '' ''), itype = COMBINATOR\<rparr>]
           else items h R))\<rparr>, Inr L)"
  using assms
  by (simp add: combine_def this_add_def add_fragment validate_COMBINATOR add_selector)

subsection \<open>\<open>stringify\<close> after a chain of appends\<close>

lemma toString_newValue:
  "t \<in> simple_kinds \<Longrightarrow> toString (newValue (Str n) t) = spec_rendered (t, n)"
  by (auto simp: simple_kinds_def)

lemma add_stringify:
  assumes "t \<in> simple_kinds" and "add (Str n) t b h = (h', Inr b')"
  shows "b' = b \<and> stringify b' h' = stringify b h @ spec_rendered (t, n)"
proof -
  from assms(1) have ns: "t \<noteq> SELECTOR" by (auto simp: simple_kinds_def)
  from assms(2) ns have v: "validate (items h b) t = None"
    by (auto simp: add_fragment split: option.splits)
  with assms(2) ns have
    "h' = h\<lparr>items := (items h)(b := items h b @ [\<lparr>ivalue = newValue (Str n) t, itype = t\<rparr>])\<rparr>"
    and "b' = b"
    by (auto simp: add_fragment)
  then show ?thesis
    using toString_newValue[OF assms(1), of n] by (simp add: stringify_def)
qed

lemma chain_all_error:
  "e h = (h1, Inl err) \<Longrightarrow> chain_all e ms h = (h1, Inl err)"
  by (induction ms arbitrary: e) (simp_all add: chain_def)

lemma chain_all_stringify:
  assumes "fst ` set ps \<subseteq> simple_kinds"
    and "e h = (h1, Inr b)"
    and "chain_all e (map append_part ps) h = (h', Inr b')"
  shows "b' = b \<and> stringify b' h' = stringify b h1 @ concat (map spec_rendered ps)"
  using assms
proof (induction ps arbitrary: e h1)
  case Nil
  then show ?case by simp
next
  case (Cons p ps)
  obtain t n where p: "p = (t, n)" by (cases p)
  from Cons.prems(1) p have t: "t \<in> simple_kinds" and rest: "fst ` set ps \<subseteq> simple_kinds"
    by auto
  obtain h2 r2 where step: "add (Str n) t b h1 = (h2, r2)" by (cases "add (Str n) t b h1")
  with Cons.prems(2) p have c: "chain e (append_part p) h = (h2, r2)"
    by (simp add: chain_def append_part_def this_add_Instance)
  show ?case
  proof (cases r2)
    case (Inl err)
    with c have "chain_all (chain e (append_part p)) (map append_part ps) h = (h2, Inl err)"
      by (simp add: chain_all_error)
    with Cons.prems(3) show ?thesis by simp
  next
    case (Inr b2)
    with step add_stringify[OF t] have b2: "b2 = b"
      and s2: "stringify b h2 = stringify b h1 @ spec_rendered (t, n)" by auto
    from c Inr b2 have c': "chain e (append_part p) h = (h2, Inr b)" by simp
    from Cons.prems(3)
    have "chain_all (chain e (append_part p)) (map append_part ps) h = (h', Inr b')"
      by simp
    from Cons.IH[of "chain e (append_part p)" h2, OF rest c' this] s2 p
    show ?thesis by auto
  qed
qed

lemma first_append_stringify:
  assumes "t \<in> simple_kinds"
  shows "\<exists>h1. append_part (t, n) Facade h = (h1, Inr (fresh h)) \<and>
           stringify (fresh h) h1 = spec_rendered (t, n)"
proof -
  from assms have ns: "t \<noteq> SELECTOR" by (auto simp: simple_kinds_def)
  show ?thesis using ns toString_newValue[OF assms, of n]
    by (simp add: append_part_def this_add_def new_MyCssSelector_def add_fragment validate_eq
        count_of_def stringify_def)
qed

lemma stringify_chain:
  assumes "fst ` set (p # ps) \<subseteq> simple_kinds"
    and "stringify_of (chain_all (append_part p Facade) (map append_part ps)) h = Some s"
  shows "s = concat (map spec_rendered (p # ps))"
proof -
  obtain t n where p: "p = (t, n)" by (cases p)
  with assms(1) have t: "t \<in> simple_kinds" and rest: "fst ` set ps \<subseteq> simple_kinds" by auto
  from first_append_stringify[OF t, of n h] p obtain h1 where
    f: "append_part p Facade h = (h1, Inr (fresh h))"
    and s1: "stringify (fresh h) h1 = spec_rendered p"
    by auto
  obtain h' r' where c: "chain_all (append_part p Facade) (map append_part ps) h = (h', r')"
    by (cases "chain_all (append_part p Facade) (map append_part ps) h")
  with assms(2) obtain b' where r': "r' = Inr b'" and s: "s = stringify b' h'"
    by (auto simp: stringify_of_def split: sum.splits)
  from chain_all_stringify[of ps "append_part p Facade" h h1 "fresh h" h' b', OF rest f] c r'
  have "stringify b' h' = stringify (fresh h) h1 @ concat (map spec_rendered ps)"
    by auto
  with s s1 show ?thesis by simp
qed

lemma example_id_class_class:
  "stringify_of (chain (chain (id_css (Str ''main'') Facade) (class_css (Str ''container'')))
     (class_css (Str ''editable''))) h = Some ''#main.container.editable''"
  by (simp add: stringify_of_def chain_def id_css_def class_css_def this_add_def
      new_MyCssSelector_def add_def validate_eq count_of_def disposableTypes_def stringify_def)

lemma example_element_attr_pseudoClass:
  "stringify_of (chain (chain (element (Str ''a'') Facade) (attr (Str ''href$=\".png\"'')))
     (pseudoClass (Str ''focus''))) h = Some ''a[href$=\".png\"]:focus''"
  by (simp add: stringify_of_def chain_def element_def attr_def pseudoClass_def this_add_def
      new_MyCssSelector_def add_def validate_eq count_of_def disposableTypes_def stringify_def)

lemma example_combine:
  "stringify_of (combine_of (chain (element (Str ''div'') Facade) (id_css (Str ''main'')))
     (Str ''+'') (chain (element (Str ''table'') Facade) (id_css (Str ''data'')))) h
   = Some ''div#main + table#data''"
  by (simp add: stringify_of_def chain_def combine_of_def combine_def element_def id_css_def
      this_add_def new_MyCssSelector_def add_def validate_eq count_of_def disposableTypes_def
      stringify_def)

lemma store_div_span_built:
  "combine_of (element (Str ''div'') Facade) c (element (Str ''span'') Facade) empty_store =
   combine (Instance 0) c (Ref 1) store_div_span"
  by (simp add: combine_of_def element_def this_add_def new_MyCssSelector_def add_fragment
      validate_eq count_of_def empty_store_def store_div_span_def numeral_2_eq_2)

lemma store_a_c_built:
  "chain (element (Str ''a'') Facade) (class_css (Str ''c'')) empty_store = (store_a_c, Inr 0)"
  by (simp add: chain_def element_def class_css_def this_add_def new_MyCssSelector_def
      add_fragment validate_eq count_of_def empty_store_def store_a_c_def disposableTypes_def)

lemma store_div_span_c_built:
  "combine_of (element (Str ''div'') Facade) (Str ''+'')
     (chain (element (Str ''span'') Facade) (class_css (Str ''c''))) empty_store =
   (store_div_span_c, Inr 0)"
  by (auto simp: combine_of_def combine_def chain_def element_def class_css_def this_add_def
      new_MyCssSelector_def add_def validate_eq count_of_def empty_store_def
      store_div_span_c_def disposableTypes_def numeral_2_eq_2 fun_eq_iff)

section \<open>The claims about the selector builder\<close>

text \<open>
  Claim C1. Appending a fragment of a singleton kind (element, id, pseudo-element)
  fails with \<open>DuplicateSelectorPartError\<close> whenever a fragment of that kind is already
  anywhere in the sequence, fragments that arrived through \<open>combine\<close> included.
  \<open>validate\<close> tests \<open>typesCounter[type] === 1\<close>, so with two elements in the sequence a
  third is accepted: \<open>combine(element('div'), '+', element('span')).element('p')\<close>
  throws nothing and renders as \<open>div + spanp\<close>.
\<close>

theorem third_element_after_combine_accepted:
  "stringify_of
     (chain (combine_of (element (Str ''div'') Facade) (Str ''+'') (element (Str ''span'') Facade))
        (element (Str ''p'')))
     empty_store = Some ''div + spanp''"
  by (simp add: stringify_of_def chain_def combine_of_def combine_def element_def this_add_def
      new_MyCssSelector_def add_def validate_eq count_of_def disposableTypes_def stringify_def
      empty_store_def)




text \<open>
  Claim C3, as stated: for every pair of validly built builders \<open>L\<close> and \<open>R\<close>,
  \<open>combine(L, t, R)\<close> holds the fragments of \<open>L\<close>, one combinator fragment, then the
  fragments of \<open>R\<close>. When \<open>L\<close> and \<open>R\<close> are the same builder the combinator is pushed
  on the one array before it is spread: the result holds two combinator fragments.
\<close>

theorem combine_same_builder_counterexample:
  "fragments_only (items store_div_span 0) \<and>
   fst (combine (Instance 0) (Str ''+'') (Ref 0) store_div_span) =
     store_div_span\<lparr>items := (items store_div_span)(0 :=
       [\<lparr>ivalue = Str ''div'', itype = ELEMENT\<rparr>, \<lparr>ivalue = Str '' + '', itype = COMBINATOR\<rparr>,
        \<lparr>ivalue = Str ''div'', itype = ELEMENT\<rparr>, \<lparr>ivalue = Str '' + '', itype = COMBINATOR\<rparr>])\<rparr> \<and>
   items (fst (combine (Instance 0) (Str ''+'') (Ref 0) store_div_span)) 0 \<noteq>
     items store_div_span 0 @ [\<lparr>ivalue = Str '' + '', itype = COMBINATOR\<rparr>] @ items store_div_span 0"
  by (simp add: combine_def this_add_def add_def validate_eq count_of_def disposableTypes_def
      store_div_span_def fragments_only_def)

text \<open>
  Claim C3, amended. For every two distinct validly built builders \<open>L\<close> and \<open>R\<close> and
  every token \<open>c\<close>, \<open>combine(L, c, R)\<close> throws nothing and returns \<open>L\<close>, whose sequence
  is now the fragments of \<open>L\<close>, then one combinator fragment with the text of \<open>c\<close>
  between two single spaces, then the fragments of \<open>R\<close>; and
  \<open>combine(element('div').id('main'), '+', element('table').id('data')).stringify()\<close>
  is \<open>div#main + table#data\<close>.
\<close>

theorem combine_concatenates:
  assumes "L \<noteq> R" and "fragments_only (items h L)"
  shows "combine (Instance L) c (Ref R) h =
           (h\<lparr>items := (items h)(L := items h L @
                [\<lparr>ivalue = Str ('' '' @ toString c @ '' ''), itype = COMBINATOR\<rparr>] @ items h R)\<rparr>,
            Inr L)
       \<and> stringify_of (combine_of (chain (element (Str ''div'') Facade) (id_css (Str ''main'')))
            (Str ''+'') (chain (element (Str ''table'') Facade) (id_css (Str ''data'')))) h
          = Some ''div#main + table#data''"
  using assms by (simp add: combine_eq example_combine)

theorem combine_concatenates_witness:
  "(0::nat) \<noteq> 1 \<and> fragments_only (items store_div_span 0) \<and>
   combine (Instance 0) (Str ''+'') (Ref 1) store_div_span =
     (store_div_span\<lparr>items := (items store_div_span)(0 :=
        [\<lparr>ivalue = Str ''div'', itype = ELEMENT\<rparr>, \<lparr>ivalue = Str '' + '', itype = COMBINATOR\<rparr>,
         \<lparr>ivalue = Str ''span'', itype = ELEMENT\<rparr>])\<rparr>, Inr 0)"
proof -
  have 1: "(0::nat) \<noteq> 1" by simp
  have 2: "fragments_only (items store_div_span 0)"
    by (simp add: store_div_span_def fragments_only_def)
  from combine_concatenates[OF 1 2, of "Str ''+''"] 1 2 show ?thesis
    by (simp add: store_div_span_def)
qed

text \<open>
  Claim C4. \<open>stringify()\<close> is the concatenation, in insertion order and with nothing
  between them, of the texts of the fragments; the text of a fragment is the name
  after \<open>#\<close> for id, after \<open>.\<close> for class, between \<open>[\<close> and \<open>]\<close> for attribute, after \<open>:\<close>
  for pseudo-class, after \<open>::\<close> for pseudo-element, and the bare name for element. So
  a chain of appends that throws nothing, from the facade or on a builder \<open>b\<close>, renders
  as the texts of its parts in order; \<open>id('main').class('container').class('editable')\<close>
  renders as \<open>#main.container.editable\<close> and
  \<open>element('a').attr('href$=".png"').pseudoClass('focus')\<close> as \<open>a[href$=".png"]:focus\<close>.
\<close>

theorem stringify_concatenates_rendered:
  "(fst ` set (p # ps) \<subseteq> simple_kinds \<and>
      stringify_of (chain_all (append_part p Facade) (map append_part ps)) h = Some s
      \<longrightarrow> s = concat (map spec_rendered (p # ps)))
   \<and> (fst ` set ps \<subseteq> simple_kinds \<and>
      chain_all (\<lambda>h. (h, Inr b)) (map append_part ps) h = (h', Inr b')
      \<longrightarrow> b' = b \<and> stringify b' h' = stringify b h @ concat (map spec_rendered ps))
   \<and> stringify b h = concat (map (\<lambda>item. toString (ivalue item)) (items h b))
   \<and> stringify_of (chain (chain (id_css (Str ''main'') Facade) (class_css (Str ''container'')))
        (class_css (Str ''editable''))) h = Some ''#main.container.editable''
   \<and> stringify_of (chain (chain (element (Str ''a'') Facade) (attr (Str ''href$=\".png\"'')))
        (pseudoClass (Str ''focus''))) h = Some ''a[href$=\".png\"]:focus''"
proof (intro conjI impI)
  assume "fst ` set (p # ps) \<subseteq> simple_kinds \<and>
      stringify_of (chain_all (append_part p Facade) (map append_part ps)) h = Some s"
  then show "s = concat (map spec_rendered (p # ps))"
    using stringify_chain by blast
next
  assume a: "fst ` set ps \<subseteq> simple_kinds \<and>
      chain_all (\<lambda>h. (h, Inr b)) (map append_part ps) h = (h', Inr b')"
  from chain_all_stringify[of ps "\<lambda>h. (h, Inr b)" h h b h' b'] a
  show "b' = b" and "stringify b' h' = stringify b h @ concat (map spec_rendered ps)"
    by auto
next
  show "stringify b h = concat (map (\<lambda>item. toString (ivalue item)) (items h b))"
    by (simp add: stringify_def)
next
  show "stringify_of (chain (chain (id_css (Str ''main'') Facade) (class_css (Str ''container'')))
        (class_css (Str ''editable''))) h = Some ''#main.container.editable''"
    by (rule example_id_class_class)
next
  show "stringify_of (chain (chain (element (Str ''a'') Facade) (attr (Str ''href$=\".png\"'')))
        (pseudoClass (Str ''focus''))) h = Some ''a[href$=\".png\"]:focus''"
    by (rule example_element_attr_pseudoClass)
qed

theorem stringify_concatenates_rendered_witness:
  "fst ` set [(ELEMENT, ''a''), (ATTR, ''href''), (PSEUDO_CLASS, ''focus'')] \<subseteq> simple_kinds \<and>
   stringify_of (chain_all (append_part (ELEMENT, ''a'') Facade)
      (map append_part [(ATTR, ''href''), (PSEUDO_CLASS, ''focus'')])) empty_store
     = Some ''a[href]:focus'' \<and>
   ''a[href]:focus'' =
     concat (map spec_rendered [(ELEMENT, ''a''), (ATTR, ''href''), (PSEUDO_CLASS, ''focus'')])"
proof -
  have 1: "fst ` set [(ELEMENT, ''a''), (ATTR, ''href''), (PSEUDO_CLASS, ''focus'')] \<subseteq> simple_kinds"
    by (simp add: simple_kinds_def)
  have 2: "stringify_of (chain_all (append_part (ELEMENT, ''a'') Facade)
      (map append_part [(ATTR, ''href''), (PSEUDO_CLASS, ''focus'')])) empty_store
     = Some ''a[href]:focus''"
    by (simp add: stringify_of_def chain_def append_part_def this_add_def new_MyCssSelector_def
        add_def validate_eq count_of_def disposableTypes_def stringify_def empty_store_def)
  from stringify_concatenates_rendered[of "(ELEMENT, ''a'')"
      "[(ATTR, ''href''), (PSEUDO_CLASS, ''focus'')]" empty_store "''a[href]:focus''"] 1 2
  have "''a[href]:focus'' =
     concat (map spec_rendered [(ELEMENT, ''a''), (ATTR, ''href''), (PSEUDO_CLASS, ''focus'')])"
    by blast
  with 1 2 show ?thesis by blast
qed

text \<open>
  Claim C5. An append that is rejected leaves the store, and so the fragment sequence
  of the builder, exactly as it was before the call; the error of a rejected append is
  \<open>DuplicateSelectorPartError\<close> or \<open>SelectorOrderError\<close>.
\<close>

theorem rejected_append_keeps_store:
  assumes "m \<in> {element, id_css, class_css, attr, pseudoClass, pseudoElement}"
    and "m v (Instance b) h = (h', Inl e)"
  shows "h' = h \<and> items h' b = items h b
       \<and> (e = DuplicateSelectorPartError \<or> e = SelectorOrderError)"
proof -
  from assms(1) consider "m = element" | "m = id_css" | "m = class_css" | "m = attr"
    | "m = pseudoClass" | "m = pseudoElement" by blast
  then have "\<exists>type. type \<in> simple_kinds \<and> m v (Instance b) h = this_add v type (Instance b) h"
  proof cases
    case 1 then show ?thesis unfolding element_def simple_kinds_def by blast
  next
    case 2 then show ?thesis unfolding id_css_def simple_kinds_def by blast
  next
    case 3 then show ?thesis unfolding class_css_def simple_kinds_def by blast
  next
    case 4 then show ?thesis unfolding attr_def simple_kinds_def by blast
  next
    case 5 then show ?thesis unfolding pseudoClass_def simple_kinds_def by blast
  next
    case 6 then show ?thesis unfolding pseudoElement_def simple_kinds_def by blast
  qed
  then obtain type where ty: "type \<in> simple_kinds"
    and m: "m v (Instance b) h = this_add v type (Instance b) h" by blast
  from ty have ns: "type \<noteq> SELECTOR" by (auto simp: simple_kinds_def)
  from assms(2) m have a: "add v type b h = (h', Inl e)" by (simp add: this_add_Instance)
  then have eq: "h' = h" by (rule add_error_keeps_store)
  from a ns have "validate (items h b) type = Some e"
    by (auto simp: add_fragment split: option.splits)
  then have "e = DuplicateSelectorPartError \<or> e = SelectorOrderError"
    by (auto simp: validate_eq split: if_splits)
  with eq show ?thesis by simp
qed

theorem rejected_append_keeps_store_witness:
  "id_css \<in> {element, id_css, class_css, attr, pseudoClass, pseudoElement} \<and>
   id_css (Str ''x'') (Instance 0) store_a_c = (store_a_c, Inl SelectorOrderError) \<and>
   items store_a_c 0 = [\<lparr>ivalue = Str ''a'', itype = ELEMENT\<rparr>, \<lparr>ivalue = Str ''.c'', itype = CLASS\<rparr>]"
proof -
  have 1: "id_css \<in> {element, id_css, class_css, attr, pseudoClass, pseudoElement}" by simp
  have 2: "id_css (Str ''x'') (Instance 0) store_a_c = (store_a_c, Inl SelectorOrderError)"
    by (simp add: id_css_def this_add_def add_def validate_eq count_of_def disposableTypes_def
        store_a_c_def)
  from rejected_append_keeps_store[OF 1 2] 1 2 show ?thesis
    by (simp add: store_a_c_def)
qed

text \<open>
  Claim C10, as stated: for every pair of builder instances \<open>L\<close> and \<open>R\<close>,
  \<open>combine(L, t, R)\<close> returns \<open>L\<close> and leaves the sequence of \<open>R\<close> unchanged, so
  \<open>R.stringify()\<close> is the same before and after. With \<open>R\<close> the same instance as \<open>L\<close>
  the sequence of \<open>R\<close> grows: \<open>div\<close> becomes \<open>div + div + \<close>.
\<close>

theorem combine_same_builder_changes_right_counterexample:
  "stringify 0 store_div_span = ''div'' \<and>
   (case combine (Instance 0) (Str ''+'') (Ref 0) store_div_span of
      (h', r) \<Rightarrow> r = Inr 0 \<and> stringify 0 h' = ''div + div + '' \<and>
        items h' 0 \<noteq> items store_div_span 0)"
  by (simp add: combine_def this_add_def add_def validate_eq count_of_def disposableTypes_def
      store_div_span_def stringify_def)

text \<open>
  Claim C10, amended. For every two distinct builder instances \<open>L\<close> and \<open>R\<close> and
  every token \<open>c\<close>, \<open>combine(L, c, R)\<close> returns the instance \<open>L\<close>, whose array now holds
  the merged sequence, and changes the array of no other instance: the sequence of
  \<open>R\<close> and \<open>R.stringify()\<close> are what they were before the call.
\<close>

theorem combine_frame:
  assumes "L \<noteq> R" and "fragments_only (items h L)"
  shows "\<exists>h'. combine (Instance L) c (Ref R) h = (h', Inr L)
           \<and> items h' R = items h R \<and> stringify R h' = stringify R h
           \<and> items h' L = items h L @
                [\<lparr>ivalue = Str ('' '' @ toString c @ '' ''), itype = COMBINATOR\<rparr>] @ items h R
           \<and> (\<forall>r. r \<noteq> L \<longrightarrow> items h' r = items h r) \<and> fresh h' = fresh h"
  using assms by (simp add: combine_eq stringify_def)

theorem combine_frame_witness:
  "(0::nat) \<noteq> 1 \<and> fragments_only (items store_div_span 0) \<and>
   snd (combine (Instance 0) (Str ''+'') (Ref 1) store_div_span) = Inr 0 \<and>
   stringify 1 (fst (combine (Instance 0) (Str ''+'') (Ref 1) store_div_span)) = ''span'' \<and>
   stringify 1 store_div_span = ''span''"
proof -
  have 1: "(0::nat) \<noteq> 1" by simp
  have 2: "fragments_only (items store_div_span 0)"
    by (simp add: store_div_span_def fragments_only_def)
  have 3: "stringify 1 store_div_span = ''span''" by (simp add: store_div_span_def stringify_def)
  from combine_frame[OF 1 2, of "Str ''+''"] 1 2 3 show ?thesis
    by auto
qed

section \<open>Properties of \<open>getJSON\<close> and \<open>fromJSON\<close>\<close>

subsection \<open>What \<open>SerializeJSONProperty\<close> does on a cycle\<close>




lemma sequence_map_Returns: "sequence (map Returns xs) = Returns xs"
  by (induction xs) auto










text \<open>
  With a function as its \<open>toJSON\<close> an object leaves the model before the cycle is
  looked for: \<open>JSON.stringify\<close> would serialize what the call returns.
\<close>

lemma toJSON_before_cycle:
  "getJSON nt [PlainObject [(units ''toJSON'', Function), (units ''self'', Object 0)]] (Object 0)
   = Outside_model"
  by (simp add: getJSON_def JSON_stringify_def lookup_def callable_toJSON_def)

subsection \<open>Decimal texts\<close>

lemma dec_nonempty: "dec n \<noteq> []"
  by (subst dec.simps) simp

lemma dec_digits: "list_all is_digit (dec n)"
proof (induction n rule: dec.induct)
  case (1 n)
  show ?case
  proof (cases "n < 10")
    case True
    then show ?thesis by (subst dec.simps) (simp add: is_digit_def)
  next
    case False
    have "n mod 10 < 10" by simp
    then have "is_digit (48 + n mod 10)" unfolding is_digit_def by linarith
    with False "1.IH" show ?thesis by (subst dec.simps) simp
  qed
qed

lemma dec_value: "foldl (\<lambda>a c. 10 * a + (c - 48)) 0 (dec n) = n"
proof (induction n rule: dec.induct)
  case (1 n)
  show ?case
  proof (cases "n < 10")
    case True
    then show ?thesis by (subst dec.simps) simp
  next
    case False
    with "1.IH" show ?thesis by (subst dec.simps) simp
  qed
qed

lemma dec_leading: "0 < n \<Longrightarrow> hd (dec n) \<noteq> 48"
proof (induction n rule: dec.induct)
  case (1 n)
  show ?case
  proof (cases "n < 10")
    case True
    with "1.prems" show ?thesis by (subst dec.simps) simp
  next
    case False
    then have "0 < n div 10" by simp
    with False "1.IH" have "hd (dec (n div 10)) \<noteq> 48" by simp
    with False dec_nonempty[of "n div 10"] show ?thesis by (subst dec.simps) simp
  qed
qed

lemma dec_zero: "dec 0 = [48]"
  by (subst dec.simps) simp

lemma undec_dec: "undec (dec n) = Some n"
proof -
  have "hd (dec n) \<noteq> 48 \<or> length (dec n) = 1"
  proof (cases "n = 0")
    case True
    then show ?thesis by (simp add: dec_zero)
  next
    case False
    then show ?thesis using dec_leading[of n] by simp
  qed
  then show ?thesis
    by (simp add: undec_def dec_nonempty dec_digits dec_value)
qed

lemma inj_dec: "inj dec"
proof (rule injI)
  fix x y assume "dec x = dec y"
  then have "undec (dec x) = undec (dec y)" by simp
  then show "x = y" by (simp add: undec_dec)
qed

subsection \<open>\<open>Object.assign\<close> on a parsed tree\<close>

lemma Set_property_takes_field:
  assumes "takes_field obj k"
  shows "Set_property call_setter obj k v =
         Returns (obj\<lparr>own_properties := (own_properties obj)(k \<mapsto> Data_property v True True)\<rparr>)"
  using assms
  by (auto simp: takes_field_def Set_property_def set_own_def split: option.splits property.splits)

lemma takes_field_other:
  assumes "takes_field obj k" and "k \<noteq> k'"
  shows "takes_field (obj\<lparr>own_properties := (own_properties obj)(k' \<mapsto> p)\<rparr>) k"
  using assms by (simp add: takes_field_def split: option.splits)

lemma Set_all_takes_fields:
  assumes "distinct (map fst ms)" and "\<forall>k \<in> fst ` set ms. takes_field obj k"
  shows "\<exists>obj'. Set_all call_setter obj ms = Returns obj'
           \<and> prototype_chain obj' = prototype_chain obj
           \<and> extensible obj' = extensible obj
           \<and> (\<forall>k. own_properties obj' k =
                 (case map_of ms k of
                    Some v \<Rightarrow> Some (Data_property (Parsed v) True True)
                  | None \<Rightarrow> own_properties obj k))"
  using assms
proof (induction ms arbitrary: obj)
  case Nil
  then show ?case by simp
next
  case (Cons m ms)
  obtain k' v' where m: "m = (k', v')" by (cases m)
  let ?obj1 = "obj\<lparr>own_properties := (own_properties obj)(k' \<mapsto> Data_property (Parsed v') True True)\<rparr>"
  from Cons.prems m have d: "distinct (map fst ms)" and new: "map_of ms k' = None"
    and notin: "k' \<notin> fst ` set ms"
    by (auto simp: map_of_eq_None_iff)
  from Cons.prems(2) m have "takes_field obj k'" by auto
  then have step: "Set_property call_setter obj k' (Parsed v') = Returns ?obj1"
    by (rule Set_property_takes_field)
  have "\<forall>k \<in> fst ` set ms. takes_field ?obj1 k"
  proof
    fix k assume k: "k \<in> fst ` set ms"
    with Cons.prems(2) have "takes_field obj k" by auto
    moreover from k notin have "k \<noteq> k'" by auto
    ultimately show "takes_field ?obj1 k" by (rule takes_field_other)
  qed
  from Cons.IH[OF d this] obtain obj' where
    r: "Set_all call_setter ?obj1 ms = Returns obj'"
    and c: "prototype_chain obj' = prototype_chain ?obj1"
    and e: "extensible obj' = extensible ?obj1"
    and f: "\<And>k. own_properties obj' k =
              (case map_of ms k of
                 Some v \<Rightarrow> Some (Data_property (Parsed v) True True)
               | None \<Rightarrow> own_properties ?obj1 k)"
    by blast
  from step r m have "Set_all call_setter obj (m # ms) = Returns obj'" by simp
  moreover have "own_properties obj' k =
      (case map_of (m # ms) k of
         Some v \<Rightarrow> Some (Data_property (Parsed v) True True)
       | None \<Rightarrow> own_properties obj k)" for k
    using f[of k] m new by (simp split: option.splits)
  ultimately show ?case using c e by auto
qed

lemma CreateDataProperty_keys:
  "fst ` set (CreateDataProperty ps k v) = insert k (fst ` set ps)"
  by (induction ps) auto

lemma CreateDataProperty_distinct:
  "distinct (map fst ps) \<Longrightarrow> distinct (map fst (CreateDataProperty ps k v))"
proof (induction ps)
  case Nil
  then show ?case by simp
next
  case (Cons p ps)
  then show ?case
    using CreateDataProperty_keys[of ps k v] by (auto simp: image_iff)
qed

lemma foldl_CreateDataProperty_distinct:
  "distinct (map fst obj) \<Longrightarrow>
   distinct (map fst (foldl (\<lambda>obj (k, v). CreateDataProperty obj k v) obj ms))"
  by (induction ms arbitrary: obj) (auto simp: CreateDataProperty_distinct split: prod.splits)

lemma object_of_members_distinct: "distinct (map fst (object_of_members ms))"
  by (simp add: object_of_members_def foldl_CreateDataProperty_distinct)

lemma parse_value_object_distinct:
  assumes "parse_value np n cs = Some (JObject kvs, r)"
  shows "distinct (map fst kvs)"
proof (cases n)
  case 0
  with assms show ?thesis by simp
next
  case (Suc m)
  with assms show ?thesis
    by (auto simp: parse_literal_def parse_number_def object_of_members_distinct
        split: list.splits if_splits option.splits prod.splits)
qed

lemma OrdinaryOwnPropertyKeys_set: "set (OrdinaryOwnPropertyKeys ms) = set ms"
  by (auto simp: OrdinaryOwnPropertyKeys_def)

lemma OrdinaryOwnPropertyKeys_distinct:
  assumes "distinct (map fst ms)"
  shows "distinct (map fst (OrdinaryOwnPropertyKeys ms))"
proof -
  from assms have d: "distinct ms" and i: "inj_on fst (set ms)"
    by (simp_all add: distinct_map)
  from d have "distinct (OrdinaryOwnPropertyKeys ms)"
    by (auto simp: OrdinaryOwnPropertyKeys_def)
  with i show ?thesis
    by (simp add: distinct_map OrdinaryOwnPropertyKeys_set)
qed

lemma map_of_OrdinaryOwnPropertyKeys:
  assumes "distinct (map fst ms)"
  shows "map_of (OrdinaryOwnPropertyKeys ms) = map_of ms"
  using OrdinaryOwnPropertyKeys_distinct[OF assms] assms OrdinaryOwnPropertyKeys_set[of ms]
  by (simp add: map_of_inject_set)

lemma own_enumerable_distinct:
  assumes "JSON_parse np text = Inr tree"
  shows "distinct (map fst (own_enumerable tree))"
proof (cases tree)
  case (JObject kvs)
  with assms obtain r where "parse_value np (Suc (2 * length text)) text = Some (JObject kvs, r)"
    by (auto simp: JSON_parse_def split: option.splits if_splits)
  then have "distinct (map fst kvs)" by (rule parse_value_object_distinct)
  with JObject show ?thesis by (simp add: own_enumerable_def OrdinaryOwnPropertyKeys_distinct)
next
  case (JArray elems)
  then show ?thesis
    by (simp add: own_enumerable_def distinct_map inj_dec inj_on_def injD[OF inj_dec])
next
  case (JString s)
  then show ?thesis
    by (simp add: own_enumerable_def distinct_map inj_dec inj_on_def injD[OF inj_dec])
qed (simp_all add: own_enumerable_def)

subsection \<open>\<open>fromJSON\<close> on the three templates\<close>

lemma parse_width_10:
  "JSON_parse undec (units ''{\"width\":10}'') = Inr (JObject [(units ''width'', JNumber 10)])"
  by code_simp

lemma own_enumerable_width_10:
  "own_enumerable (JObject [(units ''width'', JNumber (10::nat))]) =
   [(units ''width'', JNumber 10)]"
  by (simp add: own_enumerable_def OrdinaryOwnPropertyKeys_def array_index_def undec_def
      is_digit_def units_def)

lemma new_Circle:
  "new_object (constructor Circle_prototype) =
   Returns \<lparr>own_properties = [units ''radius'' \<mapsto> Data_property (Default Undefined) True True],
            prototype_chain = the_prototype,
            extensible = True\<rparr>"
  if "the_prototype = prototype (the (constructor Circle_prototype))"
  using that by (simp add: new_object_def Circle_prototype_def)

text \<open>
  \<open>new Rectangle()\<close> is the object literal that \<open>Rectangle\<close> returns, whose prototype is
  \<open>Object.prototype\<close>: the result of \<open>fromJSON(Rectangle.prototype, json)\<close> is not of
  the kind of its template.
\<close>

lemma fromJSON_Rectangle:
  "\<exists>obj. fromJSON call_setter undec Rectangle_prototype (units ''{\"width\":10}'') = Returns obj
     \<and> prototype_chain obj = [Object_prototype]
     \<and> prototype_chain obj \<noteq> prototype (the (constructor Rectangle_prototype))
     \<and> enumerable_fields obj (units ''width'') = Some (Parsed (JNumber 10))
     \<and> enumerable_fields obj (units ''height'') = Some (Default Undefined)"
  by (simp add: fromJSON_def parse_width_10 Object_assign_def own_enumerable_width_10
      new_object_def Rectangle_prototype_def Set_property_def set_own_def enumerable_fields_def;
      simp add: units_def Object_prototype_def)

text \<open>
  With a setter for \<open>width\<close> on the prototype, \<open>Object.assign\<close> calls the setter and
  makes no field \<open>width\<close>: the result has the field \<open>w2\<close> that the setter made.
\<close>

lemma fromJSON_Acc:
  "\<exists>obj. fromJSON example_setters undec Acc_prototype (units ''{\"width\":10}'') = Returns obj
     \<and> own_properties obj (units ''width'') = None
     \<and> enumerable_fields obj (units ''w2'') = Some (Parsed (JNumber 10))"
  by (simp add: fromJSON_def parse_width_10 Object_assign_def own_enumerable_width_10
      new_object_def Acc_prototype_def example_setters_def Set_property_def set_own_def
      enumerable_fields_def; simp add: units_def Object_prototype_def)

text \<open>
  A parsed \<open>__proto__\<close> runs the built-in setter: the result has another prototype and
  no field of that name.
\<close>

lemma parse_proto_null:
  "JSON_parse undec (units ''{\"__proto__\":null}'') = Inr (JObject [(units ''__proto__'', JNull)])"
  by code_simp

lemma own_enumerable_proto_null:
  "own_enumerable (JObject [(units ''__proto__'', JNull)] :: nat json) =
   [(units ''__proto__'', JNull)]"
  by (simp add: own_enumerable_def OrdinaryOwnPropertyKeys_def array_index_def undec_def
      is_digit_def units_def)

lemma fromJSON_proto_null:
  "\<exists>obj. fromJSON example_setters undec Circle_prototype (units ''{\"__proto__\":null}'') =
           Returns obj
     \<and> prototype_chain obj = []
     \<and> own_properties obj (units ''__proto__'') = None
     \<and> enumerable_fields obj (units ''radius'') = Some (Default Undefined)"
  by (simp add: fromJSON_def parse_proto_null Object_assign_def own_enumerable_proto_null
      new_object_def Circle_prototype_def Set_property_def set_own_def enumerable_fields_def;
      simp add: units_def Object_prototype_def example_setters_def)

text \<open>
  The members of the source whose key is an array index come first, by index.
\<close>

lemma own_enumerable_index_first:
  "own_enumerable (JObject [(units ''b'', JNull), (units ''10'', JBool True), (units ''9'', JBool False)]
     :: nat json) =
   [(units ''9'', JBool False), (units ''10'', JBool True), (units ''b'', JNull)]"
  by (simp add: own_enumerable_def OrdinaryOwnPropertyKeys_def array_index_def undec_def
      is_digit_def units_def)

text \<open>
  A property that cannot be set ends \<open>Object.assign\<close> with a \<open>TypeError\<close>: here the
  target is not extensible, as after \<open>Object.freeze(this)\<close> in the constructor.
\<close>

lemma Set_property_not_extensible:
  "Set_property call_setter
     \<lparr>own_properties = Map.empty, prototype_chain = [], extensible = False\<rparr> k v = Throws TypeError"
  by (simp add: Set_property_def set_own_def)

text \<open>What is not a constructor throws before the text is parsed.\<close>

lemma fromJSON_no_constructor:
  "fromJSON call_setter np \<lparr>constructor = None\<rparr> json = Throws TypeError"
  by (simp add: fromJSON_def new_object_def)

section \<open>The round trip through \<open>getJSON\<close> and \<open>JSON.parse\<close>\<close>

subsection \<open>Strings\<close>

lemma hex_value_hex_digit: "d < 16 \<Longrightarrow> hex_value (hex_digit d) = Some d"
  by (auto simp: hex_value_def hex_digit_def)

lemma hex_recombine:
  assumes "c < 65536"
  shows "(c div 4096 mod 16) * 4096 + (c div 256 mod 16) * 256 + (c div 16 mod 16) * 16 + c mod 16 = (c::nat)"
proof -
  have a: "c mod 16 + 16 * (c div 16) = c" by simp
  have b: "c div 16 mod 16 + 16 * (c div 16 div 16) = c div 16" by simp
  have c': "c div 256 mod 16 + 16 * (c div 256 div 16) = c div 256" by simp
  have e: "c div 16 div 16 = c div 256" "c div 256 div 16 = c div 4096"
    by (simp_all add: div_mult2_eq[symmetric])
  from assms have f: "c div 4096 mod 16 = c div 4096" by simp
  from a b c' e f show ?thesis by linarith
qed

lemma parse_string_escape4:
  assumes "d3 < 16" "d2 < 16" "d1 < 16" "d0 < 16"
  shows "parse_string (92 # 117 # hex_digit d3 # hex_digit d2 # hex_digit d1 # hex_digit d0 # cs)
       = cons_unit (d3 * 4096 + d2 * 256 + d1 * 16 + d0) (parse_string cs)"
  using assms by (simp add: hex_value_hex_digit)

lemma parse_string_UnicodeEscape:
  assumes "c < 65536"
  shows "parse_string (UnicodeEscape c @ cs) = cons_unit c (parse_string cs)"
proof -
  have "parse_string (UnicodeEscape c @ cs) =
      cons_unit ((c div 4096 mod 16) * 4096 + (c div 256 mod 16) * 256 + (c div 16 mod 16) * 16 + c mod 16)
        (parse_string cs)"
    unfolding UnicodeEscape_def append_Cons append_Nil
    by (rule parse_string_escape4) simp_all
  then show ?thesis by (simp only: hex_recombine[OF assms])
qed

lemma parse_string_plain:
  assumes "32 \<le> c" "c \<noteq> 34" "c \<noteq> 92"
  shows "parse_string (c # cs) = cons_unit c (parse_string cs)"
  using assms by (simp add: not_less[symmetric])

lemma quote_units_control:
  assumes "c < 32" "c \<noteq> 8" "c \<noteq> 9" "c \<noteq> 10" "c \<noteq> 12" "c \<noteq> 13"
  shows "quote_units (c # cs) = UnicodeEscape c @ quote_units cs"
  using assms by (subst quote_units.simps(2)) (simp del: quote_units.simps(2))

lemma quote_units_pair:
  assumes "is_high_surrogate c" "is_low_surrogate d"
  shows "quote_units (c # d # ds) = c # d # quote_units ds"
proof -
  from assms(1) have "\<not> c < 32" "c \<noteq> 8" "c \<noteq> 9" "c \<noteq> 10" "c \<noteq> 12" "c \<noteq> 13" "c \<noteq> 34" "c \<noteq> 92"
    by (simp_all add: is_high_surrogate_def)
  with assms show ?thesis
    by (subst quote_units.simps(2)) (simp del: quote_units.simps(2))
qed

lemma quote_units_lone_high:
  assumes "is_high_surrogate c" "cs = [] \<or> \<not> is_low_surrogate (hd cs)"
  shows "quote_units (c # cs) = UnicodeEscape c @ quote_units cs"
proof -
  from assms(1) have "\<not> c < 32" "c \<noteq> 8" "c \<noteq> 9" "c \<noteq> 10" "c \<noteq> 12" "c \<noteq> 13" "c \<noteq> 34" "c \<noteq> 92"
    by (simp_all add: is_high_surrogate_def)
  with assms show ?thesis
    by (subst quote_units.simps(2)) (auto simp del: quote_units.simps(2) split: list.splits)
qed

lemma quote_units_lone_low:
  assumes "is_low_surrogate c"
  shows "quote_units (c # cs) = UnicodeEscape c @ quote_units cs"
proof -
  from assms(1) have "\<not> c < 32" "c \<noteq> 8" "c \<noteq> 9" "c \<noteq> 10" "c \<noteq> 12" "c \<noteq> 13" "c \<noteq> 34" "c \<noteq> 92"
    "\<not> is_high_surrogate c"
    by (simp_all add: is_low_surrogate_def is_high_surrogate_def)
  with assms show ?thesis
    by (subst quote_units.simps(2)) (simp del: quote_units.simps(2))
qed

lemma quote_units_plain:
  assumes "32 \<le> c" "c \<noteq> 34" "c \<noteq> 92" "\<not> is_high_surrogate c" "\<not> is_low_surrogate c"
  shows "quote_units (c # cs) = c # quote_units cs"
  using assms by (subst quote_units.simps(2)) (simp del: quote_units.simps(2))

lemma parse_string_quote_units:
  "parse_string (quote_units s @ 34 # rest) = Some (s, rest)"
proof (induction s rule: length_induct)
  case (1 s)
  show ?case
  proof (cases s)
    case Nil
    then show ?thesis by simp
  next
    case (Cons c cs)
    from "1.IH" Cons have ih: "parse_string (quote_units cs @ 34 # rest) = Some (cs, rest)"
      by simp
    show ?thesis
    proof (cases "c = 8 \<or> c = 9 \<or> c = 10 \<or> c = 12 \<or> c = 13 \<or> c = 34 \<or> c = 92")
      case True
      then consider "c = 8" | "c = 9" | "c = 10" | "c = 12" | "c = 13" | "c = 34" | "c = 92"
        by blast
      then show ?thesis unfolding Cons
        by cases (simp_all add: ih units_def escape_unit_def cons_unit_def)
    next
      case named: False
      show ?thesis
      proof (cases "c < 32")
        case True
        then have "c < 65536" by simp
        from parse_string_UnicodeEscape[OF this] quote_units_control[of c cs] True named ih
        show ?thesis unfolding Cons
          by (simp add: cons_unit_def del: quote_units.simps(2) parse_string.simps)
      next
        case control: False
        with named have pl: "32 \<le> c" "c \<noteq> 34" "c \<noteq> 92" by auto
        show ?thesis
        proof (cases "is_high_surrogate c")
          case high: True
          then have lt: "c < 65536" by (simp add: is_high_surrogate_def)
          show ?thesis
          proof (cases "\<exists>d ds. cs = d # ds \<and> is_low_surrogate d")
            case True
            then obtain d ds where cs: "cs = d # ds" and low: "is_low_surrogate d" by blast
            then have pd: "32 \<le> d" "d \<noteq> 34" "d \<noteq> 92" by (auto simp: is_low_surrogate_def)
            from "1.IH" Cons cs have "parse_string (quote_units ds @ 34 # rest) = Some (ds, rest)"
              by simp
            with quote_units_pair[OF high low, of ds] show ?thesis unfolding Cons cs
              by (simp add: parse_string_plain[OF pl] parse_string_plain[OF pd] cons_unit_def
                  del: parse_string.simps quote_units.simps(2))
          next
            case False
            then have "cs = [] \<or> \<not> is_low_surrogate (hd cs)" by (cases cs) auto
            from quote_units_lone_high[OF high this] parse_string_UnicodeEscape[OF lt] ih
            show ?thesis unfolding Cons
              by (simp add: cons_unit_def del: parse_string.simps quote_units.simps(2))
          qed
        next
          case nothigh: False
          show ?thesis
          proof (cases "is_low_surrogate c")
            case True
            then have lt: "c < 65536" by (simp add: is_low_surrogate_def)
            from quote_units_lone_low[OF True] parse_string_UnicodeEscape[OF lt] ih
            show ?thesis unfolding Cons
              by (simp add: cons_unit_def del: parse_string.simps quote_units.simps(2))
          next
            case False
            from quote_units_plain[OF pl nothigh False] ih show ?thesis unfolding Cons
              by (simp add: parse_string_plain[OF pl] cons_unit_def
                  del: parse_string.simps quote_units.simps(2))
          qed
        qed
      qed
    qed
  qed
qed

subsection \<open>The parser on the text of a tree\<close>

lemma skip_ws_start: "\<not> is_ws c \<Longrightarrow> skip_ws (c # cs) = c # cs"
  by (simp add: skip_ws_def)

lemma value_start_not_ws: "value_start c \<Longrightarrow> \<not> is_ws c"
  by (auto simp: value_start_def is_ws_def is_digit_def)

lemma number_run:
  assumes "list_all is_number_unit xs" and "follow rest"
  shows "takeWhile is_number_unit (xs @ rest) = xs" and "dropWhile is_number_unit (xs @ rest) = rest"
proof -
  from assms(1) have a: "\<forall>x \<in> set xs. is_number_unit x" by (simp add: list_all_iff)
  from assms(2) have t: "takeWhile is_number_unit rest = []" and d: "dropWhile is_number_unit rest = rest"
    by (cases rest; simp add: follow_def)+
  from a t show "takeWhile is_number_unit (xs @ rest) = xs" by (simp add: takeWhile_append2)
  from a d show "dropWhile is_number_unit (xs @ rest) = rest" by (simp add: dropWhile_append2)
qed

lemma JSON_text_start:
  assumes "number_format nt np"
  shows "\<exists>c cs. JSON_text nt t = c # cs \<and> value_start c"
proof (cases t)
  case (JNumber n)
  from assms have "nt n \<noteq> []" and "hd (nt n) = 45 \<or> is_digit (hd (nt n))"
    by (simp_all add: number_format_def)
  then show ?thesis using JNumber by (cases "nt n") (auto simp: value_start_def)
qed (auto simp: units_def value_start_def QuoteJSONString_def)

lemma CreateDataProperty_new:
  "k \<notin> fst ` set ps \<Longrightarrow> CreateDataProperty ps k v = ps @ [(k, v)]"
  by (induction ps) auto

lemma foldl_CreateDataProperty_new:
  "distinct (map fst (acc @ ms)) \<Longrightarrow>
   foldl (\<lambda>obj (k, v). CreateDataProperty obj k v) acc ms = acc @ ms"
proof (induction ms arbitrary: acc)
  case Nil
  then show ?case by simp
next
  case (Cons m ms)
  obtain k v where m: "m = (k, v)" by (cases m)
  from Cons.prems m have "k \<notin> fst ` set acc" by auto
  then have c: "CreateDataProperty acc k v = acc @ [(k, v)]" by (rule CreateDataProperty_new)
  from Cons.prems m have "distinct (map fst ((acc @ [(k, v)]) @ ms))" by simp
  from Cons.IH[OF this] c m show ?case by simp
qed

lemma object_of_members_id: "distinct (map fst ms) \<Longrightarrow> object_of_members ms = ms"
  using foldl_CreateDataProperty_new[of "[]" ms] by (simp add: object_of_members_def)

lemma follow_simps: "follow (93 # rest)" "follow (44 # rest)" "follow (125 # rest)" "follow []"
  by (simp_all add: follow_def is_number_unit_def is_digit_def)

lemma length_join_Cons:
  "length (join sep (x # y # ys)) = length x + length sep + length (join sep (y # ys))"
  by simp

lemma parse_elements_text:
  assumes ih: "\<And>t n rest. t \<in> set ts \<Longrightarrow> 2 * length (JSON_text nt t) \<le> n \<Longrightarrow> follow rest \<Longrightarrow>
             parse_value np n (JSON_text nt t @ rest) = Some (t, rest)"
    and "ts \<noteq> []"
    and "2 * length (join (units '','') (map (JSON_text nt) ts)) + 1 \<le> n"
  shows "parse_elements np n (join (units '','') (map (JSON_text nt) ts) @ 93 # rest) = Some (ts, rest)"
  using assms
proof (induction ts arbitrary: n)
  case Nil
  then show ?case by simp
next
  case (Cons t ts)
  from Cons.prems(3) obtain m where n: "n = Suc m" by (cases n) auto
  show ?case
  proof (cases ts)
    case Nil
    from Cons.prems(3) n Nil have "2 * length (JSON_text nt t) \<le> m" by simp
    from Cons.prems(1)[of t m "93 # rest"] \<open>2 * length (JSON_text nt t) \<le> m\<close>
    have pv: "parse_value np m (JSON_text nt t @ 93 # rest) = Some (t, 93 # rest)"
      by (simp add: follow_simps)
    have sk: "skip_ws (93 # rest) = 93 # rest" by (simp add: skip_ws_def is_ws_def)
    show ?thesis unfolding n Nil
      by (subst parse_elements.simps(2))
         (simp add: pv sk del: parse_value.simps parse_elements.simps(2))
  next
    case (Cons t' ts')
    define tail where "tail = join (units '','') (map (JSON_text nt) (t' # ts'))"
    have j: "join (units '','') (map (JSON_text nt) (t # ts)) = JSON_text nt t @ 44 # tail"
      unfolding Cons tail_def by (simp add: units_def)
    from Cons.prems(3) n have le: "2 * (length (JSON_text nt t) + 1 + length tail) \<le> m"
      unfolding j by simp
    then have "2 * length (JSON_text nt t) \<le> m" by simp
    with Cons.prems(1)[of t m "44 # tail @ 93 # rest"]
    have pv: "parse_value np m (JSON_text nt t @ 44 # tail @ 93 # rest) = Some (t, 44 # tail @ 93 # rest)"
      by (simp add: follow_simps)
    have sk: "skip_ws (44 # tail @ 93 # rest) = 44 # tail @ 93 # rest"
      by (simp add: skip_ws_def is_ws_def)
    have ih': "\<And>t n rest. t \<in> set ts \<Longrightarrow> 2 * length (JSON_text nt t) \<le> n \<Longrightarrow> follow rest \<Longrightarrow>
             parse_value np n (JSON_text nt t @ rest) = Some (t, rest)"
      using Cons.prems(1) by simp
    from le have "2 * length tail + 1 \<le> m" by simp
    with Cons.IH[OF ih', of m] Cons
    have pe: "parse_elements np m (tail @ 93 # rest) = Some (ts, rest)" by (simp add: tail_def)
    show ?thesis unfolding n j
      by (subst parse_elements.simps(2))
         (simp add: pv sk pe del: parse_value.simps parse_elements.simps(2))
  qed
qed

lemma member_of_eq: "member_of nt m = 34 # quote_units (fst m) @ 34 # 58 # JSON_text nt (snd m)"
  by (simp add: member_of_def QuoteJSONString_def units_def)

lemma parse_members_step:
  assumes pv: "parse_value np n (JSON_text nt t @ X) = Some (t, X)"
    and sk: "skip_ws X = X"
  shows "parse_members np (Suc n) (member_of nt (k, t) @ X) =
           (case X of
              [] \<Rightarrow> None
            | d # r4 \<Rightarrow>
                if d = 44 then
                  (case parse_members np n r4 of
                     None \<Rightarrow> None
                   | Some (ms, r5) \<Rightarrow> Some ((k, t) # ms, r5))
                else if d = 125 then Some ([(k, t)], r4)
                else None)"
proof -
  have s1: "skip_ws (34 # quote_units k @ 34 # 58 # JSON_text nt t @ X)
          = 34 # quote_units k @ 34 # 58 # JSON_text nt t @ X"
    by (simp add: skip_ws_def is_ws_def)
  have s2: "skip_ws (58 # JSON_text nt t @ X) = 58 # JSON_text nt t @ X"
    by (simp add: skip_ws_def is_ws_def)
  have ps: "parse_string (quote_units k @ 34 # 58 # JSON_text nt t @ X)
          = Some (k, 58 # JSON_text nt t @ X)"
    by (rule parse_string_quote_units)
  show ?thesis
    by (subst parse_members.simps(2))
       (simp add: member_of_eq s1 s2 ps pv sk
          del: parse_value.simps parse_members.simps(2) parse_string.simps)
qed

lemma parse_members_text:
  assumes ih: "\<And>m n rest. m \<in> set ms \<Longrightarrow> 2 * length (JSON_text nt (snd m)) \<le> n \<Longrightarrow>
             follow rest \<Longrightarrow> parse_value np n (JSON_text nt (snd m) @ rest) = Some (snd m, rest)"
    and "ms \<noteq> []"
    and "2 * length (join (units '','') (map (member_of nt) ms)) + 1 \<le> n"
  shows "parse_members np n (join (units '','') (map (member_of nt) ms) @ 125 # rest) = Some (ms, rest)"
  using assms
proof (induction ms arbitrary: n)
  case Nil
  then show ?case by simp
next
  case (Cons m ms)
  obtain k t where m: "m = (k, t)" by (cases m)
  from Cons.prems(3) obtain n' where n: "n = Suc n'" by (cases n) auto
  have lm: "length (JSON_text nt t) + 1 \<le> length (member_of nt (k, t))"
    by (simp add: member_of_eq)
  show ?case
  proof (cases ms)
    case Nil
    from Cons.prems(3) n Nil m lm have "2 * length (JSON_text nt t) \<le> n'" by simp
    with Cons.prems(1)[of m n' "125 # rest"] m
    have pv: "parse_value np n' (JSON_text nt t @ 125 # rest) = Some (t, 125 # rest)"
      by (simp add: follow_simps)
    have sk: "skip_ws (125 # rest) = 125 # rest" by (simp add: skip_ws_def is_ws_def)
    have "parse_members np (Suc n') (member_of nt (k, t) @ 125 # rest) = Some ([(k, t)], rest)"
      using parse_members_step[OF pv sk, of k]
      by (simp del: parse_members.simps(2) parse_value.simps)
    then show ?thesis by (simp only: n Nil m join.simps list.map)
  next
    case (Cons m' ms')
    define tail where "tail = join (units '','') (map (member_of nt) (m' # ms'))"
    have j: "join (units '','') (map (member_of nt) (m # ms)) = member_of nt (k, t) @ 44 # tail"
      unfolding Cons tail_def m by (simp add: units_def)
    from Cons.prems(3) n have le: "2 * (length (member_of nt (k, t)) + 1 + length tail) \<le> n'"
      unfolding j by simp
    with lm have "2 * length (JSON_text nt t) \<le> n'" by simp
    with Cons.prems(1)[of m n' "44 # tail @ 125 # rest"] m
    have pv: "parse_value np n' (JSON_text nt t @ 44 # tail @ 125 # rest) = Some (t, 44 # tail @ 125 # rest)"
      by (simp add: follow_simps)
    have sk: "skip_ws (44 # tail @ 125 # rest) = 44 # tail @ 125 # rest"
      by (simp add: skip_ws_def is_ws_def)
    have ih': "\<And>m n rest. m \<in> set ms \<Longrightarrow> 2 * length (JSON_text nt (snd m)) \<le> n \<Longrightarrow>
             follow rest \<Longrightarrow> parse_value np n (JSON_text nt (snd m) @ rest) = Some (snd m, rest)"
      using Cons.prems(1) by simp
    from le have "2 * length tail + 1 \<le> n'" by simp
    with Cons.IH[OF ih', of n'] Cons
    have pe: "parse_members np n' (tail @ 125 # rest) = Some (ms, rest)" by (simp add: tail_def)
    have "parse_members np (Suc n') (member_of nt (k, t) @ 44 # tail @ 125 # rest)
        = Some ((k, t) # ms, rest)"
      using parse_members_step[OF pv sk, of k] pe
      by (simp del: parse_members.simps(2) parse_value.simps)
    then show ?thesis by (simp only: n m j[unfolded m] append_assoc append_Cons)
  qed
qed

lemma JSON_text_JObject:
  "JSON_text nt (JObject ms) = 123 # join (units '','') (map (member_of nt) ms) @ [125]"
proof -
  have "(\<lambda>m. QuoteJSONString (fst m) @ units '':'' @ JSON_text nt (snd m)) = member_of nt"
    by (rule ext) (simp add: member_of_def)
  then show ?thesis by (simp add: units_def)
qed

lemma JSON_text_JArray:
  "JSON_text nt (JArray ts) = 91 # join (units '','') (map (JSON_text nt) ts) @ [93]"
  by (simp add: units_def)

lemma join_start:
  assumes "xs \<noteq> []" and "hd xs = c # cs"
  shows "\<exists>r. join sep xs = c # r"
proof (cases xs)
  case Nil
  with assms show ?thesis by simp
next
  case (Cons x ys)
  with assms show ?thesis by (cases ys) auto
qed

lemma parse_value_JSON_text:
  assumes nf: "number_format nt np"
  shows "distinct_keys t \<Longrightarrow> 2 * length (JSON_text nt t) \<le> n \<Longrightarrow> follow rest \<Longrightarrow>
         parse_value np n (JSON_text nt t @ rest) = Some (t, rest)"
proof (induction t arbitrary: n rest)
  case JNull
  then obtain m where "n = Suc m" by (cases n) (auto simp: units_def)
  then show ?case
    by (simp add: units_def skip_ws_def is_ws_def parse_literal_def)
next
  case (JBool b)
  then obtain m where "n = Suc m" by (cases n; cases b) (auto simp: units_def)
  then show ?case
    by (cases b) (simp_all add: units_def skip_ws_def is_ws_def parse_literal_def)
next
  case (JNumber x)
  from nf have np: "np (nt x) = Some x" and ne: "nt x \<noteq> []"
    and all: "list_all is_number_unit (nt x)"
    and h: "hd (nt x) = 45 \<or> is_digit (hd (nt x))"
    by (simp_all add: number_format_def)
  from ne obtain c cs where cs: "nt x = c # cs" by (cases "nt x") auto
  with h have c: "c = 45 \<or> is_digit c" by simp
  then have nws: "\<not> is_ws c" and ne34: "c \<noteq> 34" "c \<noteq> 91" "c \<noteq> 123" "c \<noteq> 116" "c \<noteq> 102" "c \<noteq> 110"
    by (auto simp: is_ws_def is_digit_def)
  from JNumber.prems(2) cs obtain m where n: "n = Suc m" by (cases n) auto
  from number_run[OF all JNumber.prems(3)] np
  have pn: "parse_number np (nt x @ rest) = Some (JNumber x, rest)"
    by (simp add: parse_number_def)
  have sk: "skip_ws (c # cs @ rest) = c # cs @ rest" using nws by (simp add: skip_ws_def)
  from pn cs have pn': "parse_number np (c # cs @ rest) = Some (JNumber x, rest)" by simp
  show ?case unfolding n
    using c ne34 by (simp add: cs sk pn')
next
  case (JString s)
  then obtain m where n: "n = Suc m" by (cases n) (auto simp: QuoteJSONString_def)
  have sk: "skip_ws (34 # quote_units s @ 34 # rest) = 34 # quote_units s @ 34 # rest"
    by (simp add: skip_ws_def is_ws_def)
  show ?case unfolding n
    by (simp add: QuoteJSONString_def sk parse_string_quote_units del: parse_string.simps)
next
  case (JArray ts)
  from JArray.prems(2) obtain m where n: "n = Suc m" by (cases n) (auto simp: units_def)
  define body where "body = join (units '','') (map (JSON_text nt) ts)"
  have shape: "JSON_text nt (JArray ts) @ rest = 91 # body @ 93 # rest"
    unfolding JSON_text_JArray body_def by simp
  have sk: "skip_ws (91 # body @ 93 # rest) = 91 # body @ 93 # rest"
    by (simp add: skip_ws_def is_ws_def)
  show ?case
  proof (cases ts)
    case Nil
    then have "body = []" by (simp add: body_def)
    with Nil show ?thesis unfolding shape n
      by (simp add: sk skip_ws_def is_ws_def)
  next
    case (Cons t' ts')
    from JSON_text_start[OF nf, of t'] obtain c cs where c: "JSON_text nt t' = c # cs"
      and vs: "value_start c" by blast
    from join_start[of "map (JSON_text nt) ts" c cs "units '',''"] Cons c
    obtain r where b: "body = c # r" by (auto simp: body_def)
    from vs have c93: "c \<noteq> 93" and nws: "\<not> is_ws c"
      by (auto simp: value_start_def is_digit_def is_ws_def)
    have sk2: "skip_ws (body @ 93 # rest) = c # r @ 93 # rest"
      using nws by (simp add: b skip_ws_def)
    have ih: "\<And>t n rest. t \<in> set ts \<Longrightarrow> 2 * length (JSON_text nt t) \<le> n \<Longrightarrow> follow rest \<Longrightarrow>
             parse_value np n (JSON_text nt t @ rest) = Some (t, rest)"
      using JArray.IH JArray.prems(1) by (simp add: list_all_iff)
    from JArray.prems(2) n have le: "2 * length body + 1 \<le> m"
      unfolding JSON_text_JArray body_def by simp
    have pe: "parse_elements np m (body @ 93 # rest) = Some (ts, rest)"
      unfolding body_def
    proof (rule parse_elements_text)
      show "ts \<noteq> []" using Cons by simp
      show "2 * length (join (units '','') (map (JSON_text nt) ts)) + 1 \<le> m"
        using le by (simp add: body_def)
    qed (rule ih)
    show ?thesis unfolding shape n
      by (subst parse_value.simps(2))
         (simp add: sk sk2 pe c93 del: parse_value.simps parse_elements.simps)
  qed
next
  case (JObject ms)
  from JObject.prems(2) obtain m where n: "n = Suc m" by (cases n) (auto simp: units_def)
  define body where "body = join (units '','') (map (member_of nt) ms)"
  have shape: "JSON_text nt (JObject ms) @ rest = 123 # body @ 125 # rest"
    unfolding JSON_text_JObject body_def by simp
  have sk: "skip_ws (123 # body @ 125 # rest) = 123 # body @ 125 # rest"
    by (simp add: skip_ws_def is_ws_def)
  from JObject.prems(1) have dk: "distinct (map fst ms)" by simp
  show ?case
  proof (cases ms)
    case Nil
    then have "body = []" by (simp add: body_def)
    with Nil show ?thesis unfolding shape n
      by (simp add: sk skip_ws_def is_ws_def)
  next
    case (Cons m' ms')
    from join_start[of "map (member_of nt) ms" 34 "quote_units (fst m') @ 34 # 58 # JSON_text nt (snd m')" "units '',''"] Cons
    obtain r where b: "body = 34 # r" by (auto simp: body_def member_of_eq)
    have sk2: "skip_ws (body @ 125 # rest) = 34 # r @ 125 # rest"
      by (simp add: b skip_ws_def is_ws_def)
    have ih: "\<And>m n rest. m \<in> set ms \<Longrightarrow> 2 * length (JSON_text nt (snd m)) \<le> n \<Longrightarrow>
             follow rest \<Longrightarrow> parse_value np n (JSON_text nt (snd m) @ rest) = Some (snd m, rest)"
    proof -
      fix m n rest
      assume m: "m \<in> set ms" and le: "2 * length (JSON_text nt (snd m)) \<le> n" and f: "follow rest"
      have s: "snd m \<in> Basic_BNFs.snds m" by (cases m) simp
      from JObject.prems(1) m have "distinct_keys (snd m)" by (simp add: list_all_iff)
      from JObject.IH[OF m s this le f]
      show "parse_value np n (JSON_text nt (snd m) @ rest) = Some (snd m, rest)" .
    qed
    from JObject.prems(2) n have le: "2 * length body + 1 \<le> m"
      unfolding JSON_text_JObject body_def by simp
    have pe: "parse_members np m (body @ 125 # rest) = Some (ms, rest)"
      unfolding body_def
    proof (rule parse_members_text)
      show "ms \<noteq> []" using Cons by simp
      show "2 * length (join (units '','') (map (member_of nt) ms)) + 1 \<le> m"
        using le by (simp add: body_def)
    qed (rule ih)
    show ?thesis unfolding shape n
      by (subst parse_value.simps(2))
         (simp add: sk sk2 pe object_of_members_id[OF dk]
            del: parse_value.simps parse_members.simps)
  qed
qed

theorem JSON_parse_JSON_text:
  assumes "number_format nt np" and "distinct_keys t"
  shows "JSON_parse np (JSON_text nt t) = Inr t"
proof -
  have "parse_value np (Suc (2 * length (JSON_text nt t))) (JSON_text nt t @ []) = Some (t, [])"
    by (rule parse_value_JSON_text[OF assms]) (simp_all add: follow_def)
  then show ?thesis by (simp add: JSON_parse_def skip_ws_def del: parse_value.simps)
qed

subsection \<open>A value and its tree\<close>

inductive_cases denotes_JNullE: "denotes h v JNull"

inductive_cases denotes_JBoolE: "denotes h v (JBool b)"

inductive_cases denotes_JNumberE: "denotes h v (JNumber n)"

inductive_cases denotes_JStringE: "denotes h v (JString s)"

inductive_cases denotes_JArrayE: "denotes h v (JArray ts)"

inductive_cases denotes_JObjectE: "denotes h v (JObject ms)"

inductive_cases denotes_FunctionE: "denotes h Function t"

inductive_cases denotes_ObjectE: "denotes h (Object r) t"

inductive_cases denotes_NullE: "denotes h Null t"

inductive_cases denotes_BoolE: "denotes h (Bool b) t"

inductive_cases denotes_NumE: "denotes h (Num x) t"

inductive_cases denotes_StringE: "denotes h (String s) t"

lemma size_element: "t \<in> set ts \<Longrightarrow> size t < size (JArray ts)"
  by (induction ts) auto

lemma size_member: "m \<in> set ms \<Longrightarrow> size (snd m) < size (JObject ms)"
proof (induction ms)
  case Nil
  then show ?case by simp
next
  case (Cons a ms)
  then show ?case by (cases a; cases m) auto
qed

lemma list_all2_unique:
  assumes "list_all2 P xs ys" and "list_all2 P xs zs"
    and "\<And>x y z. y \<in> set ys \<Longrightarrow> P x y \<Longrightarrow> P x z \<Longrightarrow> y = z"
  shows "ys = zs"
  using assms
proof (induction xs ys arbitrary: zs rule: list_all2_induct)
  case Nil
  then show ?case by simp
next
  case (Cons x xs y ys)
  from Cons.prems(1) obtain z zs' where zs: "zs = z # zs'" and pz: "P x z"
    and rest: "list_all2 P xs zs'" by (cases zs) auto
  from Cons.prems(2)[of y x z] Cons.hyps(1) pz have "y = z" by simp
  moreover from Cons.IH[OF rest] Cons.prems(2) have "ys = zs'" by simp
  ultimately show ?case using zs by simp
qed

lemma denotes_functional:
  "denotes h v t \<Longrightarrow> denotes h v t' \<Longrightarrow> t = t'"
proof (induction t arbitrary: v t')
  case JNull
  from JNull(1) have v: "v = Null" by (cases rule: denotes.cases) auto
  from JNull(2)[unfolded v] show ?case by (cases rule: denotes.cases) auto
next
  case (JBool b)
  from JBool(1) have v: "v = Bool b" by (cases rule: denotes.cases) auto
  from JBool(2)[unfolded v] show ?case by (cases rule: denotes.cases) auto
next
  case (JNumber n)
  from JNumber(1) have v: "v = Num (Finite n)" by (cases rule: denotes.cases) auto
  from JNumber(2)[unfolded v] show ?case by (cases rule: denotes.cases) auto
next
  case (JString s)
  from JString(1) have v: "v = String s" by (cases rule: denotes.cases) auto
  from JString(2)[unfolded v] show ?case by (cases rule: denotes.cases) auto
next
  case (JArray ts)
  from JArray.prems(1) obtain r elems where v: "v = Object r"
    and l: "lookup h r = Some (ArrayObject elems)" and a: "list_all2 (denotes h) elems ts"
    by (cases rule: denotes.cases) auto
  from JArray.prems(2)[unfolded v] obtain ts' where t': "t' = JArray ts'"
    and a': "list_all2 (denotes h) elems ts'"
    by (cases rule: denotes.cases) (use l in auto)
  have "ts = ts'"
  proof (rule list_all2_unique[OF a a'])
    fix x y z assume "y \<in> set ts" and "denotes h x y" and "denotes h x z"
    then show "y = z" by (rule JArray.IH)
  qed
  with t' show ?case by simp
next
  case (JObject ms)
  from JObject.prems(1) obtain r props where v: "v = Object r"
    and l: "lookup h r = Some (PlainObject props)" and k: "map fst props = map fst ms"
    and a: "list_all2 (denotes h) (map snd props) (map snd ms)"
    by (cases rule: denotes.cases) auto
  from JObject.prems(2)[unfolded v] obtain ms' where t': "t' = JObject ms'"
    and k': "map fst props = map fst ms'"
    and a': "list_all2 (denotes h) (map snd props) (map snd ms')"
    by (cases rule: denotes.cases) (use l in auto)
  have "map snd ms = map snd ms'"
  proof (rule list_all2_unique[OF a a'])
    fix x y z assume y: "y \<in> set (map snd ms)" and "denotes h x y" and "denotes h x z"
    from y obtain m where m: "m \<in> set ms" and ym: "y = snd m" by auto
    have "snd m \<in> Basic_BNFs.snds m" by (cases m) simp
    with ym have "y \<in> Basic_BNFs.snds m" by simp
    from JObject.IH[OF m this \<open>denotes h x y\<close> \<open>denotes h x z\<close>] show "y = z" .
  qed
  moreover from k k' have "map fst ms = map fst ms'" by simp
  ultimately have "zip (map fst ms) (map snd ms) = zip (map fst ms') (map snd ms')"
    by (simp only:)
  then have "ms = ms'" by (simp only: zip_map_fst_snd)
  with t' show ?case by simp
qed

lemma list_all2_map_eq:
  "list_all2 (\<lambda>x y. f x = g y) xs ys \<Longrightarrow> map f xs = map g ys"
  by (induction xs ys rule: list_all2_induct) simp_all

lemma denotes_not_callable_toJSON:
  assumes "list_all2 (denotes h) (map snd props) vs"
  shows "\<not> callable_toJSON props"
proof
  assume "callable_toJSON props"
  then have "(units ''toJSON'', Function) \<in> set props"
    by (simp add: callable_toJSON_def map_of_SomeD)
  then have "Function \<in> set (map snd props)" by force
  then obtain i where i: "i < length (map snd props)" and f: "map snd props ! i = Function"
    by (auto simp: in_set_conv_nth)
  from list_all2_nthD[OF assms i] f have "denotes h Function (vs ! i)" by simp
  then show False by (rule denotes_FunctionE)
qed

lemma element_texts: "map element_text (map (\<lambda>t. Some (f t)) ts) = map f ts"
  by (simp add: element_text_def)

lemma member_texts:
  assumes "map fst props = map fst ms"
  shows "concat (map member_text (zip (map fst props) (map (\<lambda>m. Some (JSON_text nt (snd m))) ms)))
       = map (member_of nt) ms"
proof -
  have "concat (map member_text (zip (map fst ms) (map (\<lambda>m. Some (JSON_text nt (snd m))) ms)))
       = map (member_of nt) ms"
    by (induction ms) (simp_all add: member_text_def member_of_def)
  with assms show ?thesis by simp
qed

lemma ser_denotes:
  "denotes h v t \<Longrightarrow>
   (\<And>a. a \<in> set stack \<Longrightarrow> \<exists>ta. denotes h (Object a) ta \<and> size t < size ta) \<Longrightarrow>
   SerializeJSONProperty nt h stack v = Returns (Some (JSON_text nt t))"
proof (induction t arbitrary: v stack)
  case JNull
  from JNull(1) show ?case by (cases rule: denotes.cases) auto
next
  case (JBool b)
  from JBool(1) show ?case by (cases rule: denotes.cases) auto
next
  case (JNumber n)
  from JNumber(1) show ?case by (cases rule: denotes.cases) auto
next
  case (JString s)
  from JString(1) show ?case by (cases rule: denotes.cases) auto
next
  case (JArray ts)
  from JArray.prems(1) obtain r elems where v: "v = Object r"
    and l: "lookup h r = Some (ArrayObject elems)" and a: "list_all2 (denotes h) elems ts"
    by (cases rule: denotes.cases) auto
  have ns: "r \<notin> set stack"
  proof
    assume "r \<in> set stack"
    from JArray.prems(2)[OF this] obtain ta where d: "denotes h (Object r) ta"
      and s: "size (JArray ts) < size ta" by blast
    from denotes_functional[OF d JArray.prems(1)[unfolded v]] s show False by simp
  qed
  have inv: "\<exists>ta. denotes h (Object a) ta \<and> size t < size ta"
    if t: "t \<in> set ts" and a: "a \<in> set (r # stack)" for t a
  proof -
    from a consider "a = r" | "a \<in> set stack" by auto
    then show ?thesis
    proof cases
      case 1
      with JArray.prems(1) v size_element[OF t] show ?thesis by blast
    next
      case 2
      from JArray.prems(2)[OF this] size_element[OF t] show ?thesis
        by (meson less_trans)
    qed
  qed
  have "list_all2 (\<lambda>e t. SerializeJSONProperty nt h (r # stack) e = Returns (Some (JSON_text nt t))) elems ts"
    unfolding list_all2_conv_all_nth
  proof (intro conjI allI impI)
    from a show "length elems = length ts" by (rule list_all2_lengthD)
  next
    fix i assume i: "i < length elems"
    with a have it: "i < length ts" by (simp add: list_all2_lengthD)
    then have t: "ts ! i \<in> set ts" by simp
    from list_all2_nthD[OF a i] have d: "denotes h (elems ! i) (ts ! i)" .
    show "SerializeJSONProperty nt h (r # stack) (elems ! i) = Returns (Some (JSON_text nt (ts ! i)))"
      by (rule JArray.IH[OF t d]) (rule inv[OF t])
  qed
  then have "map (SerializeJSONProperty nt h (r # stack)) elems
           = map (\<lambda>t. Returns (Some (JSON_text nt t))) ts"
    by (rule list_all2_map_eq)
  then have "sequence (map (SerializeJSONProperty nt h (r # stack)) elems)
           = Returns (map (\<lambda>t. Some (JSON_text nt t)) ts)"
    using sequence_map_Returns[of "map (\<lambda>t. Some (JSON_text nt t)) ts"]
    by (simp add: comp_def)
  with v l ns show ?case
    by (simp add: comp_def element_text_def)
next
  case (JObject ms)
  from JObject.prems(1) obtain r props where v: "v = Object r"
    and l: "lookup h r = Some (PlainObject props)" and k: "map fst props = map fst ms"
    and a: "list_all2 (denotes h) (map snd props) (map snd ms)"
    by (cases rule: denotes.cases) auto
  have nc: "\<not> callable_toJSON props" using a by (rule denotes_not_callable_toJSON)
  have ns: "r \<notin> set stack"
  proof
    assume "r \<in> set stack"
    from JObject.prems(2)[OF this] obtain ta where d: "denotes h (Object r) ta"
      and s: "size (JObject ms) < size ta" by blast
    from denotes_functional[OF d JObject.prems(1)[unfolded v]] s show False by simp
  qed
  have inv: "\<exists>ta. denotes h (Object a) ta \<and> size (snd m) < size ta"
    if m: "m \<in> set ms" and a: "a \<in> set (r # stack)" for m a
  proof -
    from a consider "a = r" | "a \<in> set stack" by auto
    then show ?thesis
    proof cases
      case 1
      with JObject.prems(1) v size_member[OF m] show ?thesis by blast
    next
      case 2
      from JObject.prems(2)[OF this] size_member[OF m] show ?thesis
        by (meson less_trans)
    qed
  qed
  from k have len: "length props = length ms" by (metis length_map)
  have "list_all2 (\<lambda>p m. (case p of (k, v) \<Rightarrow> SerializeJSONProperty nt h (r # stack) v)
            = Returns (Some (JSON_text nt (snd m)))) props ms"
    unfolding list_all2_conv_all_nth
  proof (intro conjI allI impI)
    show "length props = length ms" by (rule len)
  next
    fix i assume i: "i < length props"
    with len have im: "i < length ms" by simp
    then have m: "ms ! i \<in> set ms" by simp
    have s: "snd (ms ! i) \<in> Basic_BNFs.snds (ms ! i)" by (cases "ms ! i") simp
    from i have "i < length (map snd props)" by simp
    from list_all2_nthD[OF a this] i im
    have d: "denotes h (snd (props ! i)) (snd (ms ! i))" by simp
    have "SerializeJSONProperty nt h (r # stack) (snd (props ! i))
        = Returns (Some (JSON_text nt (snd (ms ! i))))"
      by (rule JObject.IH[OF m s d]) (rule inv[OF m])
    then show "(case props ! i of (k, v) \<Rightarrow> SerializeJSONProperty nt h (r # stack) v)
        = Returns (Some (JSON_text nt (snd (ms ! i))))"
      by (cases "props ! i") simp
  qed
  then have "map (\<lambda>(k, v). SerializeJSONProperty nt h (r # stack) v) props
           = map (\<lambda>m. Returns (Some (JSON_text nt (snd m)))) ms"
    by (rule list_all2_map_eq)
  then have sq: "sequence (map (\<lambda>(k, v). SerializeJSONProperty nt h (r # stack) v) props)
           = Returns (map (\<lambda>m. Some (JSON_text nt (snd m))) ms)"
    using sequence_map_Returns[of "map (\<lambda>m. Some (JSON_text nt (snd m))) ms"]
    by (simp add: comp_def)
  have "SerializeJSONProperty nt h stack (Object r) =
      Returns (Some (units ''{'' @ join (units '','') (map (member_of nt) ms) @ units ''}''))"
    using l nc ns by (simp add: sq member_texts[OF k])
  with v show ?case unfolding JSON_text_JObject by (simp add: units_def)
qed

lemma denotes_distinct_keys: "denotes h v t \<Longrightarrow> distinct_keys t"
proof (induction t arbitrary: v)
  case (JArray ts)
  from JArray.prems obtain elems where a: "list_all2 (denotes h) elems ts"
    by (cases rule: denotes.cases) auto
  have "distinct_keys t" if t: "t \<in> set ts" for t
  proof -
    from t obtain i where i: "i < length ts" and ti: "ts ! i = t" by (auto simp: in_set_conv_nth)
    from a i have "i < length elems" by (simp add: list_all2_lengthD)
    from list_all2_nthD[OF a this] ti have "denotes h (elems ! i) t" by simp
    with JArray.IH[OF t] show ?thesis .
  qed
  then show ?case by (simp add: list_all_iff)
next
  case (JObject ms)
  from JObject.prems have d: "distinct (map fst ms)"
    by (cases rule: denotes.cases) auto
  from JObject.prems obtain props :: "(jstring \<times> 'a js_value) list" where
    a: "list_all2 (denotes h) (map snd props) (map snd ms)"
    by (cases rule: denotes.cases) auto
  have "distinct_keys (snd m)" if m: "m \<in> set ms" for m
  proof -
    from m obtain i where i: "i < length ms" and mi: "ms ! i = m" by (auto simp: in_set_conv_nth)
    from list_all2_lengthD[OF a] have len: "length props = length ms" by simp
    with i have ip: "i < length (map snd props)" by simp
    from list_all2_nthD[OF a ip] i mi len have dn: "denotes h (snd (props ! i)) (snd m)"
      by simp
    have "snd m \<in> Basic_BNFs.snds m" by (cases m) simp
    from JObject.IH[OF m this dn] show ?thesis .
  qed
  with d show ?case by (simp add: list_all_iff)
qed simp_all

lemma number_format_dec: "number_format dec undec"
proof -
  have "hd (dec n) = 45 \<or> is_digit (hd (dec n))" for n
    using dec_digits[of n] dec_nonempty[of n] by (cases "dec n") simp_all
  moreover have "list_all is_number_unit (dec n)" for n
    using dec_digits[of n] by (simp add: list_all_iff is_number_unit_def)
  ultimately show ?thesis
    by (simp add: number_format_def undec_dec dec_nonempty)
qed

lemma dec_1: "dec (Suc 0) = [49]"
  by (subst dec.simps) simp

lemma sample_text:
  "getJSON dec sample_heap (Object 0) =
     Returns (Some (units ''{\"a\":1,\"b\":[true,null,\"x\"]}''))"
  by (simp add: getJSON_def JSON_stringify_def sample_heap_def lookup_def callable_toJSON_def
      member_text_def element_text_def QuoteJSONString_def units_def dec_1
      is_high_surrogate_def is_low_surrogate_def)

section \<open>The claims about \<open>Rectangle\<close>, \<open>getJSON\<close> and \<open>fromJSON\<close>\<close>

text \<open>
  Claim C9. For all \<open>w\<close> and \<open>h\<close>, \<open>Rectangle(w, h)\<close> is an object with \<open>width\<close> \<open>w\<close> and
  \<open>height\<close> \<open>h\<close> whose \<open>getArea()\<close> is the product of the width and the height the object
  has when it is called: \<open>w * h\<close> at first, and the product of the new values after the
  caller assigned to \<open>width\<close> or \<open>height\<close>.
\<close>

theorem rectangle_area:
  "width (Rectangle w h) = w \<and> height (Rectangle w h) = h
   \<and> getArea (Rectangle w h) = w * h
   \<and> getArea ((Rectangle w h)\<lparr>width := w'\<rparr>) = w' * h
   \<and> getArea ((Rectangle w h)\<lparr>height := h'\<rparr>) = w * h'
   \<and> getArea (r\<lparr>width := w', height := h'\<rparr>) = w' * h'"
  by (simp add: Rectangle_def getArea_def)

text \<open>
  Claim C6, as stated: the fields of \<open>fromJSON(proto, json)\<close> are exactly the fields of
  the parsed tree, and no field of the default construction that the text lacks
  stays on the result. \<open>Object.assign\<close> removes nothing: with a constructor that sets
  \<open>radius\<close>, the text \<open>{}\<close> has no field and the result has the field \<open>radius\<close>.
\<close>

theorem fromJSON_default_kept_counterexample:
  "JSON_parse undec (units ''{}'') = Inr (JObject []) \<and>
   own_enumerable (JObject [] :: nat json) = [] \<and>
   (case fromJSON example_setters undec Circle_prototype (units ''{}'') of
      Returns obj \<Rightarrow> enumerable_fields obj (units ''radius'') = Some (Default Undefined)
    | _ \<Rightarrow> False)"
proof -
  have 1: "JSON_parse undec (units ''{}'') = Inr (JObject [])" by code_simp
  have 2: "own_enumerable (JObject [] :: nat json) = []"
    by (simp add: own_enumerable_def OrdinaryOwnPropertyKeys_def)
  have 3: "(case fromJSON example_setters undec Circle_prototype (units ''{}'') of
      Returns obj \<Rightarrow> enumerable_fields obj (units ''radius'') = Some (Default Undefined)
    | _ \<Rightarrow> False)"
    by (simp add: fromJSON_def 1 Object_assign_def 2 new_object_def Circle_prototype_def
        enumerable_fields_def)
  from 1 2 3 show ?thesis by blast
qed

text \<open>
  Claim C6, amended. For every template whose constructor, called with no argument,
  gives an object of the kind \<open>X\<close> of the constructor, and every well-formed text each
  of whose parsed fields that object takes as a field (the object has the name as a
  writable enumerable field, or it is extensible, has no property of the name and
  inherits neither a read-only property nor an accessor of the name, as \<open>__proto__\<close>
  is), \<open>fromJSON\<close> returns an object of kind \<open>X\<close> whose enumerable fields are the fields
  of the parsed tree laid over the fields of the default construction: each field of
  the tree with its parsed value, and each default field that the tree lacks with its
  default value. Every other property of the object is as the constructor left it.
\<close>

theorem fromJSON_overlay:
  fixes call_setter :: "('c, 's, 'd, 'n) setters"
    and np :: "jstring \<Rightarrow> 'n option"
    and proto :: "('c, 's, 'd, 'n) template"
  assumes "constructor proto = Some X"
    and "new_object (constructor proto) = Returns initial"
    and "prototype_chain initial = prototype X"
    and "JSON_parse np text = Inr tree"
    and "\<forall>k \<in> fst ` set (own_enumerable tree). takes_field initial k"
  shows "\<exists>obj. fromJSON call_setter np proto text = Returns obj
           \<and> prototype_chain obj = prototype X
           \<and> extensible obj = extensible initial
           \<and> (\<forall>k. enumerable_fields obj k =
                 (case map_of (own_enumerable tree) k of
                    Some v \<Rightarrow> Some (Parsed v)
                  | None \<Rightarrow> enumerable_fields initial k))
           \<and> (\<forall>k. own_properties obj k =
                 (case map_of (own_enumerable tree) k of
                    Some v \<Rightarrow> Some (Data_property (Parsed v) True True)
                  | None \<Rightarrow> own_properties initial k))"
proof -
  have d: "distinct (map fst (own_enumerable tree))"
    using assms(4) by (rule own_enumerable_distinct)
  from Set_all_takes_fields[OF d assms(5), of call_setter] obtain obj where
    r: "Set_all call_setter initial (own_enumerable tree) = Returns obj"
    and c: "prototype_chain obj = prototype_chain initial"
    and e: "extensible obj = extensible initial"
    and f: "\<And>k. own_properties obj k =
              (case map_of (own_enumerable tree) k of
                 Some v \<Rightarrow> Some (Data_property (Parsed v) True True)
               | None \<Rightarrow> own_properties initial k)"
    by blast
  from r assms(2,4) have 1: "fromJSON call_setter np proto text = Returns obj"
    by (simp add: fromJSON_def Object_assign_def)
  from c assms(3) have 2: "prototype_chain obj = prototype X" by simp
  have 3: "enumerable_fields obj k =
      (case map_of (own_enumerable tree) k of
         Some v \<Rightarrow> Some (Parsed v)
       | None \<Rightarrow> enumerable_fields initial k)" for k
    by (simp add: enumerable_fields_def f split: option.splits)
  from 1 2 e 3 f show ?thesis by blast
qed

theorem fromJSON_overlay_witness:
  "(\<exists>X initial.
      constructor Circle_prototype = Some X \<and>
      new_object (constructor Circle_prototype) = Returns initial \<and>
      prototype_chain initial = prototype X \<and>
      JSON_parse undec (units ''{\"width\":10}'') = Inr (JObject [(units ''width'', JNumber 10)]) \<and>
      own_enumerable (JObject [(units ''width'', JNumber (10::nat))]) =
        [(units ''width'', JNumber 10)] \<and>
      takes_field initial (units ''width'')) \<and>
   (\<exists>obj. fromJSON example_setters undec Circle_prototype (units ''{\"width\":10}'') = Returns obj \<and>
      map fst (prototype_chain obj) = [''Circle.prototype'', ''Object.prototype''] \<and>
      enumerable_fields obj (units ''width'') = Some (Parsed (JNumber 10)) \<and>
      enumerable_fields obj (units ''radius'') = Some (Default Undefined))"
proof -
  define X where "X = the (constructor Circle_prototype)"
  define initial :: "(string, string, nat js_value, nat) js_object" where
    "initial = \<lparr>own_properties = [units ''radius'' \<mapsto> Data_property (Default Undefined) True True],
                prototype_chain = prototype X, extensible = True\<rparr>"
  have 1: "constructor Circle_prototype = Some X"
    by (simp add: X_def Circle_prototype_def)
  have 2: "new_object (constructor Circle_prototype) = Returns initial"
    unfolding initial_def by (rule new_Circle) (simp add: X_def)
  have 3: "prototype_chain initial = prototype X" by (simp add: initial_def)
  have 4: "JSON_parse undec (units ''{\"width\":10}'') = Inr (JObject [(units ''width'', JNumber 10)])"
    by (rule parse_width_10)
  have t: "takes_field initial (units ''width'')"
    by (simp add: takes_field_def initial_def X_def Circle_prototype_def;
        simp add: Object_prototype_def units_def)
  then have 5: "\<forall>k \<in> fst ` set (own_enumerable (JObject [(units ''width'', JNumber (10::nat))])).
             takes_field initial k"
    by (simp add: own_enumerable_width_10)
  from fromJSON_overlay[OF 1 2 3 4 5, of example_setters] obtain obj where
    o: "fromJSON example_setters undec Circle_prototype (units ''{\"width\":10}'') = Returns obj"
    and p: "prototype_chain obj = prototype X"
    and f: "\<And>k. enumerable_fields obj k =
         (case map_of (own_enumerable (JObject [(units ''width'', JNumber (10::nat))])) k of
            Some v \<Rightarrow> Some (Parsed v)
          | None \<Rightarrow> enumerable_fields initial k)"
    by blast
  have w: "enumerable_fields obj (units ''width'') = Some (Parsed (JNumber 10))"
    by (simp add: f own_enumerable_width_10)
  have r: "enumerable_fields obj (units ''radius'') = Some (Default Undefined)"
  proof -
    have "enumerable_fields obj (units ''radius'') = enumerable_fields initial (units ''radius'')"
      by (simp add: f own_enumerable_width_10; simp add: units_def)
    then show ?thesis by (simp add: enumerable_fields_def initial_def)
  qed
  have c: "map fst (prototype_chain obj) = [''Circle.prototype'', ''Object.prototype'']"
    using p by (simp add: X_def Circle_prototype_def Object_prototype_def)
  have hypotheses: "\<exists>X initial.
      constructor Circle_prototype = Some X \<and>
      new_object (constructor Circle_prototype) = Returns initial \<and>
      prototype_chain initial = prototype X \<and>
      JSON_parse undec (units ''{\"width\":10}'') = Inr (JObject [(units ''width'', JNumber 10)]) \<and>
      own_enumerable (JObject [(units ''width'', JNumber (10::nat))]) =
        [(units ''width'', JNumber 10)] \<and>
      takes_field initial (units ''width'')"
    using 1 2 3 4 own_enumerable_width_10 t by (intro exI conjI)
  have result: "\<exists>obj. fromJSON example_setters undec Circle_prototype (units ''{\"width\":10}'') = Returns obj \<and>
      map fst (prototype_chain obj) = [''Circle.prototype'', ''Object.prototype''] \<and>
      enumerable_fields obj (units ''width'') = Some (Parsed (JNumber 10)) \<and>
      enumerable_fields obj (units ''radius'') = Some (Default Undefined)"
    using o c w r by (intro exI conjI)
  from hypotheses result show ?thesis by (rule conjI)
qed




text \<open>
  Claim C8, as stated: for every acyclic value composed only of numbers, strings,
  booleans, \<open>null\<close>, arrays and plain objects, decoding the text of \<open>getJSON\<close> gives a
  value equal to it. \<open>NaN\<close> is a number; its text is \<open>null\<close>, which decodes to \<open>null\<close>.
\<close>

theorem getJSON_NaN_counterexample:
  "getJSON dec [] (Num NaN) = Returns (Some (units ''null'')) \<and>
   JSON_parse undec (units ''null'') = Inr JNull \<and>
   \<not> denotes [] (Num NaN) (JNull :: nat json)"
proof -
  have 1: "getJSON dec [] (Num NaN) = Returns (Some (units ''null''))"
    by (simp add: getJSON_def JSON_stringify_def)
  have 2: "JSON_parse undec (units ''null'') = Inr JNull" by code_simp
  have 3: "\<not> denotes [] (Num NaN) (JNull :: nat json)"
    by (auto elim: denotes_JNullE)
  from 1 2 3 show ?thesis by blast
qed

text \<open>
  Claim C8, amended. For every acyclic value composed only of finite numbers, strings,
  booleans, \<open>null\<close>, arrays and plain objects, \<open>getJSON\<close> returns a text and \<open>JSON.parse\<close>
  of that text is the tree of the value, provided the text of each finite number is
  a numeric token that parses back to the number.
\<close>

theorem getJSON_round_trip:
  assumes "number_format nt np" and "denotes h v t"
  shows "\<exists>text. getJSON nt h v = Returns (Some text) \<and> JSON_parse np text = Inr t"
proof -
  have "SerializeJSONProperty nt h [] v = Returns (Some (JSON_text nt t))"
    by (rule ser_denotes[OF assms(2)]) simp
  moreover have "JSON_parse np (JSON_text nt t) = Inr t"
    using assms(1) denotes_distinct_keys[OF assms(2)] by (rule JSON_parse_JSON_text)
  ultimately show ?thesis by (simp add: getJSON_def JSON_stringify_def)
qed

theorem getJSON_round_trip_witness:
  "number_format dec undec \<and> denotes sample_heap (Object 0) sample_tree \<and>
   getJSON dec sample_heap (Object 0) =
     Returns (Some (units ''{\"a\":1,\"b\":[true,null,\"x\"]}'')) \<and>
   JSON_parse undec (units ''{\"a\":1,\"b\":[true,null,\"x\"]}'') = Inr sample_tree"
proof -
  have 1: "number_format dec undec" by (rule number_format_dec)
  have a: "denotes sample_heap (Object 1) (JArray [JBool True, JNull, JString (units ''x'')])"
    by (rule denotes_Array[where elems = "[Bool True, Null, String (units ''x'')]"])
       (simp_all add: sample_heap_def lookup_def denotes.intros)
  have 2: "denotes sample_heap (Object 0) sample_tree"
    unfolding sample_tree_def
  proof (rule denotes_Object[where props = "[(units ''a'', Num (Finite 1)), (units ''b'', Object 1)]"])
    show "lookup sample_heap 0 = Some (PlainObject [(units ''a'', Num (Finite 1)), (units ''b'', Object 1)])"
      by (simp add: sample_heap_def lookup_def)
    show "map fst [(units ''a'', Num (Finite (1::nat))), (units ''b'', Object 1)] =
          map fst [(units ''a'', JNumber (1::nat)), (units ''b'', JArray [JBool True, JNull, JString (units ''x'')])]"
      by simp
    show "distinct (map fst [(units ''a'', JNumber (1::nat)), (units ''b'', JArray [JBool True, JNull, JString (units ''x'')])])"
      by (simp add: units_def)
    show "list_all2 (denotes sample_heap)
           (map snd [(units ''a'', Num (Finite 1)), (units ''b'', Object 1)])
           (map snd [(units ''a'', JNumber 1), (units ''b'', JArray [JBool True, JNull, JString (units ''x'')])])"
      using a by (simp add: denotes.intros)
  qed
  from getJSON_round_trip[OF 1 2] obtain out where
    g: "getJSON dec sample_heap (Object 0) = Returns (Some out)"
    and p: "JSON_parse undec out = Inr sample_tree" by blast
  from g sample_text have "out = units ''{\"a\":1,\"b\":[true,null,\"x\"]}''" by simp
  with 1 2 g p show ?thesis by simp
qed

end
